theory Spec2Isabelle
  imports
    Complex_Main
    "HOL-Library.Product_Lexorder"
    "HOL-Library.Sublist"
    "HOL-Library.Monad_Syntax"
begin

section \<open>Text primitives of the Python runtime\<close>

text \<open>
  Strings are lists of characters with a code point below 256.  \<open>is_space\<close> is
  \<open>str.isspace\<close> on them, which is also what the regular-expression class \<open>\s\<close>
  accepts in a \<open>str\<close> pattern: the code points 9..13, 28..32, 133 (next line) and 160
  (no-break space).
\<close>

definition is_space :: "char \<Rightarrow> bool" where
  "is_space c =
     (let n = (of_char c :: nat)
      in (9 \<le> n \<and> n \<le> 13) \<or> (28 \<le> n \<and> n \<le> 32) \<or> n = 133 \<or> n = 160)"

text \<open>\<open>s.strip()\<close>: leading and trailing white space removed.\<close>

definition strip :: "string \<Rightarrow> string" where
  "strip s = rev (dropWhile is_space (rev (dropWhile is_space s)))"

definition is_digit :: "char \<Rightarrow> bool" where
  "is_digit c = (48 \<le> (of_char c :: nat) \<and> (of_char c :: nat) \<le> 57)"

definition digit_val :: "char \<Rightarrow> nat" where
  "digit_val c = of_char c - 48"

definition digit_char :: "nat \<Rightarrow> char" where
  "digit_char n = char_of (48 + n)"

text \<open>The lower-case form of an ASCII letter, every other character being left as it is.
  It serves to compare a text with ASCII names without regard to case (the flag
  \<open>IGNORECASE\<close> of the expressions of \<open>strptime\<close>, and the names \<open>inf\<close> and
  \<open>nan\<close> of \<open>float\<close>): no other character below 256 equals an ASCII letter up to
  case.\<close>

definition lower :: "char \<Rightarrow> char" where
  "lower c = (let n = (of_char c :: nat) in if 65 \<le> n \<and> n \<le> 90 then char_of (n + 32) else c)"

text \<open>\<open>s.replace("$", "")\<close>: every dollar sign removed.\<close>

definition replace_dollar :: "string \<Rightarrow> string" where
  "replace_dollar s = filter (\<lambda>c. c \<noteq> CHR ''$'') s"

section \<open>Naive datetime values\<close>

text \<open>
  A naive \<open>datetime\<close> is the tuple (year, month, day, hour, minute, second,
  microsecond); Python compares two naive datetimes by comparing these tuples
  lexicographically, which is the order of the product type.
\<close>

type_synonym datetime = "nat \<times> nat \<times> nat \<times> nat \<times> nat \<times> nat \<times> nat"

datatype error = ValueError | KeyError

definition is_leap :: "nat \<Rightarrow> bool" where
  "is_leap y = (y mod 4 = 0 \<and> (y mod 100 \<noteq> 0 \<or> y mod 400 = 0))"

definition days_in_month :: "nat \<Rightarrow> nat \<Rightarrow> nat" where
  "days_in_month y m =
     (if m = 2 \<and> is_leap y then 29
      else [31, 28, 31, 30, 31, 30, 31, 31, 30, 31, 30, 31] ! (m - 1))"

definition days_before_year :: "nat \<Rightarrow> nat" where
  "days_before_year y = (let p = y - 1 in p * 365 + p div 4 - p div 100 + p div 400)"

definition days_before_month :: "nat \<Rightarrow> nat \<Rightarrow> nat" where
  "days_before_month y m =
     [0, 31, 59, 90, 120, 151, 181, 212, 243, 273, 304, 334] ! (m - 1)
       + (if 2 < m \<and> is_leap y then 1 else 0)"

definition toordinal :: "datetime \<Rightarrow> nat" where
  "toordinal dt = (case dt of (y, m, d, _) \<Rightarrow> days_before_year y + days_before_month y m + d)"

text \<open>\<open>dt.weekday()\<close>: Monday is 0, Sunday is 6.\<close>

definition weekday :: "datetime \<Rightarrow> nat" where
  "weekday dt = (toordinal dt + 6) mod 7"

text \<open>
  The constructor \<open>datetime(year, month, day, hour, minute)\<close> with its range
  checks on the date fields; seconds and microseconds are zero.
\<close>

definition datetime_new :: "nat \<Rightarrow> nat \<Rightarrow> nat \<Rightarrow> nat \<Rightarrow> nat \<Rightarrow> error + datetime" where
  "datetime_new y m d H M =
     (if 1 \<le> y \<and> y \<le> 9999 \<and> 1 \<le> m \<and> m \<le> 12 \<and> 1 \<le> d \<and> d \<le> days_in_month y m
         \<and> H \<le> 23 \<and> M \<le> 59
      then Inr (y, m, d, H, M, 0, 0) else Inl ValueError)"

text \<open>The values \<open>strptime\<close> returns for the date format: a calendar date at
  midnight.\<close>

definition is_date :: "datetime \<Rightarrow> bool" where
  "is_date dt =
     (case dt of (y, m, d, H, M, S, us) \<Rightarrow>
        1 \<le> y \<and> y \<le> 9999 \<and> 1 \<le> m \<and> m \<le> 12 \<and> 1 \<le> d \<and> d \<le> days_in_month y m
          \<and> H = 0 \<and> M = 0 \<and> S = 0 \<and> us = 0)"

definition weekday_names :: "string list" where
  "weekday_names =
     [''Monday'', ''Tuesday'', ''Wednesday'', ''Thursday'', ''Friday'', ''Saturday'', ''Sunday'']"

definition month_abbrs :: "string list" where
  "month_abbrs =
     [''Jan'', ''Feb'', ''Mar'', ''Apr'', ''May'', ''Jun'',
      ''Jul'', ''Aug'', ''Sep'', ''Oct'', ''Nov'', ''Dec'']"

section \<open>strptime and strftime for the two formats the program uses\<close>

text \<open>
  \<open>datetime.strptime\<close> turns the format into a regular expression, matches it
  case-insensitively at the start of the text and rejects the text when anything is left
  over.  For \<open>"%A %d %b %Y"\<close> the expression is a weekday name, white space, a day
  \<open>3[0-1]|[1-2]\d|0[1-9]|[1-9]| [1-9]\<close>, white space, a month abbreviation, white
  space and four digits, every blank of the format standing for \<open>\s+\<close>.  No name is
  a prefix of another one, and a shorter alternative never succeeds where a longer one has
  matched and the rest has failed, so the match is computed left to right without
  backtracking.  (The alternative \<open> [1-9]\<close> can only be reached by giving back a blank
  of the preceding \<open>\s+\<close> and then reads the digit that \<open>[1-9]\<close> reads.)
\<close>

fun match_ci :: "string \<Rightarrow> string \<Rightarrow> string option" where
  "match_ci [] s = Some s"
| "match_ci (p # ps) [] = None"
| "match_ci (p # ps) (c # cs) = (if lower c = lower p then match_ci ps cs else None)"

fun match_alt :: "string list \<Rightarrow> string \<Rightarrow> (nat \<times> string) option" where
  "match_alt [] s = None"
| "match_alt (n # ns) s =
     (case match_ci n s of
        Some r \<Rightarrow> Some (0, r)
      | None \<Rightarrow> (case match_alt ns s of None \<Rightarrow> None | Some (i, r) \<Rightarrow> Some (Suc i, r)))"

definition match_spaces :: "string \<Rightarrow> string option" where
  "match_spaces s =
     (case s of
        [] \<Rightarrow> None
      | c # cs \<Rightarrow> if is_space c then Some (dropWhile is_space cs) else None)"

definition match_d :: "string \<Rightarrow> (nat \<times> string) option" where
  "match_d s =
     (case s of
        [] \<Rightarrow> None
      | [a] \<Rightarrow> if is_digit a \<and> a \<noteq> CHR ''0'' then Some (digit_val a, []) else None
      | a # b # r \<Rightarrow>
          if a = CHR ''3'' \<and> (b = CHR ''0'' \<or> b = CHR ''1'') then Some (30 + digit_val b, r)
          else if (a = CHR ''1'' \<or> a = CHR ''2'') \<and> is_digit b
            then Some (10 * digit_val a + digit_val b, r)
          else if a = CHR ''0'' \<and> is_digit b \<and> b \<noteq> CHR ''0'' then Some (digit_val b, r)
          else if is_digit a \<and> a \<noteq> CHR ''0'' then Some (digit_val a, b # r)
          else None)"

definition match_Y :: "string \<Rightarrow> (nat \<times> string) option" where
  "match_Y s =
     (case s of
        a # b # c # d # r \<Rightarrow>
          if is_digit a \<and> is_digit b \<and> is_digit c \<and> is_digit d
          then Some (1000 * digit_val a + 100 * digit_val b + 10 * digit_val c + digit_val d, r)
          else None
      | _ \<Rightarrow> None)"

text \<open>\<open>datetime.strptime(s, "%A %d %b %Y")\<close>.  The weekday that was read is not
  checked against the date and does not enter the result.\<close>

definition strptime_date :: "string \<Rightarrow> error + datetime" where
  "strptime_date s =
     (case do {
             (wd, s1) \<leftarrow> match_alt weekday_names s;
             s2 \<leftarrow> match_spaces s1;
             (d, s3) \<leftarrow> match_d s2;
             s4 \<leftarrow> match_spaces s3;
             (b, s5) \<leftarrow> match_alt month_abbrs s4;
             s6 \<leftarrow> match_spaces s5;
             (y, s7) \<leftarrow> match_Y s6;
             if s7 = [] then Some (y, Suc b, d) else None
           } of
        None \<Rightarrow> Inl ValueError
      | Some (y, m, d) \<Rightarrow> datetime_new y m d 0 0)"

text \<open>For \<open>"%H:%M"\<close> the expression is \<open>(2[0-3]|[0-1]\d|\d):([0-5]\d|\d)\<close>.\<close>

definition match_H :: "string \<Rightarrow> (nat \<times> string) option" where
  "match_H s =
     (case s of
        [] \<Rightarrow> None
      | [a] \<Rightarrow> if is_digit a then Some (digit_val a, []) else None
      | a # b # r \<Rightarrow>
          if a = CHR ''2'' \<and> is_digit b \<and> digit_val b \<le> 3 then Some (20 + digit_val b, r)
          else if (a = CHR ''0'' \<or> a = CHR ''1'') \<and> is_digit b
            then Some (10 * digit_val a + digit_val b, r)
          else if is_digit a then Some (digit_val a, b # r)
          else None)"

definition match_M :: "string \<Rightarrow> (nat \<times> string) option" where
  "match_M s =
     (case s of
        [] \<Rightarrow> None
      | [a] \<Rightarrow> if is_digit a then Some (digit_val a, []) else None
      | a # b # r \<Rightarrow>
          if is_digit a \<and> digit_val a \<le> 5 \<and> is_digit b
            then Some (10 * digit_val a + digit_val b, r)
          else if is_digit a then Some (digit_val a, b # r)
          else None)"

text \<open>\<open>datetime.strptime(s, "%H:%M")\<close>: the date defaults to 1 January 1900.\<close>

definition strptime_time :: "string \<Rightarrow> error + datetime" where
  "strptime_time s =
     (case do {
             (H, s1) \<leftarrow> match_H s;
             s2 \<leftarrow> (case s1 of c # r \<Rightarrow> if c = CHR '':'' then Some r else None | [] \<Rightarrow> None);
             (M, s3) \<leftarrow> match_M s2;
             if s3 = [] then Some (H, M) else None
           } of
        None \<Rightarrow> Inl ValueError
      | Some (H, M) \<Rightarrow> datetime_new 1900 1 1 H M)"

definition pad2 :: "nat \<Rightarrow> string" where
  "pad2 n = [digit_char (n div 10 mod 10), digit_char (n mod 10)]"

definition pad4 :: "nat \<Rightarrow> string" where
  "pad4 n = [digit_char (n div 1000 mod 10), digit_char (n div 100 mod 10),
             digit_char (n div 10 mod 10), digit_char (n mod 10)]"

text \<open>\<open>dt.strftime("%A")\<close>: the full weekday name.\<close>

definition strftime_A :: "datetime \<Rightarrow> string" where
  "strftime_A dt = weekday_names ! weekday dt"

text \<open>\<open>%Y\<close> in \<open>strftime\<close> is left to the C library, and glibc writes the year as
  a plain decimal number, without leading zeros (\<open>999\<close>, not \<open>0999\<close>).  The year of a
  \<open>datetime\<close> lies between 1 and 9999.\<close>

definition strftime_Y :: "nat \<Rightarrow> string" where
  "strftime_Y y =
     (if y < 10 then [digit_char y]
      else if y < 100 then pad2 y
      else if y < 1000 then [digit_char (y div 100 mod 10), digit_char (y div 10 mod 10),
                              digit_char (y mod 10)]
      else pad4 y)"

text \<open>\<open>dt.strftime("%A %d %b %Y")\<close>, with the day in two digits.\<close>

definition strftime_date :: "datetime \<Rightarrow> string" where
  "strftime_date dt =
     (case dt of (y, m, d, _) \<Rightarrow>
        strftime_A dt @ '' '' @ pad2 d @ '' '' @ month_abbrs ! (m - 1) @ '' '' @ strftime_Y y)"

section \<open>The document as the queries of the program see it\<close>

text \<open>
  The program reads the document only through XPath queries.  A date group is the pair of
  the text nodes its \<open>activity-date\<close> query returns and the \<open>li\<close> nodes inside it,
  in document order; an activity node is the four lists of text nodes that the queries for
  the time, the origin, the destination and the amount return.
\<close>

record activity_node =
  time_texts :: "string list"
  from_texts :: "string list"
  to_texts :: "string list"
  amount_texts :: "string list"

record date_container =
  date_texts :: "string list"
  activity_nodes :: "activity_node list"

text \<open>The dictionary stored for one activity; the amount type is left open.\<close>

record 'a activity =
  time :: string
  start_point :: string
  end_point :: string
  fare :: 'a

section \<open>Dictionaries with insertion order\<close>

text \<open>
  A \<open>dict\<close> keeps its keys in insertion order; assigning to a key that is present
  replaces the value in place.  Reading a missing key raises \<open>KeyError\<close>.
\<close>

fun dict_set :: "('k \<times> 'v) list \<Rightarrow> 'k \<Rightarrow> 'v \<Rightarrow> ('k \<times> 'v) list" where
  "dict_set [] k v = [(k, v)]"
| "dict_set ((k', v') # d) k v =
     (if k' = k then (k, v) # d else (k', v') # dict_set d k v)"

text \<open>\<open>OrderedDict(pairs)\<close>: the pairs are assigned one after the other.\<close>

definition ordered_dict :: "('k \<times> 'v) list \<Rightarrow> ('k \<times> 'v) list" where
  "ordered_dict pairs = foldl (\<lambda>d (k, v). dict_set d k v) [] pairs"

text \<open>\<open>sorted(xs, reverse=True)\<close>: the stable sort of the reversed list, reversed.\<close>

definition sorted_reverse :: "'k::linorder list \<Rightarrow> 'k list" where
  "sorted_reverse xs = rev (sort_key (\<lambda>x. x) (rev xs))"

text \<open>
  \<open>xs.sort(key=f)\<close>: the key of every element is computed first, left to right, and
  an exception of \<open>f\<close> leaves the call; then the list is sorted by the keys, stably.
\<close>

fun sort_keys :: "('x \<Rightarrow> error + 'k) \<Rightarrow> 'x list \<Rightarrow> error + ('k \<times> 'x) list" where
  "sort_keys f [] = Inr []"
| "sort_keys f (x # xs) =
     (case f x of
        Inl e \<Rightarrow> Inl e
      | Inr k \<Rightarrow> (case sort_keys f xs of Inl e \<Rightarrow> Inl e | Inr kxs \<Rightarrow> Inr ((k, x) # kxs)))"

definition list_sort :: "('x \<Rightarrow> error + 'k::linorder) \<Rightarrow> 'x list \<Rightarrow> error + 'x list" where
  "list_sort f xs =
     (case sort_keys f xs of Inl e \<Rightarrow> Inl e | Inr kxs \<Rightarrow> Inr (map snd (sort_key fst kxs)))"

section \<open>parse_travel_data\<close>

text \<open>\<open>texts[0].strip() if texts else default\<close>, the way every text field of an
  activity is read.\<close>

definition first_text_or :: "string list \<Rightarrow> string \<Rightarrow> string" where
  "first_text_or texts dflt = (case texts of [] \<Rightarrow> dflt | t # _ \<Rightarrow> strip t)"

text \<open>
  Lines 119 to 143, one activity.  \<open>py_float\<close> stands for the builtin \<open>float\<close> on
  strings, which returns a number or raises \<open>ValueError\<close> (\<open>None\<close>).
\<close>

definition extract_activity ::
  "(string \<Rightarrow> 'a::zero option) \<Rightarrow> activity_node \<Rightarrow> error + 'a activity" where
  "extract_activity py_float n =
     (let time_str = first_text_or (time_texts n) ''00:00'';
          start0 = first_text_or (from_texts n) ''Unknown'';
          end0 = first_text_or (to_texts n) ''Unknown''
      in case (case amount_texts n of
                 [] \<Rightarrow> Some 0
               | t # _ \<Rightarrow> py_float (replace_dollar (strip t))) of
           None \<Rightarrow> Inl ValueError
         | Some fare0 \<Rightarrow>
             Inr (if sublist ''Top up'' start0
                  then \<lparr>time = time_str, start_point = ''Top Up'',
                        end_point = ''Opal Travel App'', fare = fare0\<rparr>
                  else \<lparr>time = time_str, start_point = start0,
                        end_point = end0, fare = fare0\<rparr>))"

text \<open>Lines 118 to 143: the list \<open>travel_data[date_obj]\<close> grows by one activity per
  node.\<close>

fun activity_loop ::
  "(string \<Rightarrow> 'a::zero option) \<Rightarrow> 'a activity list \<Rightarrow> activity_node list
     \<Rightarrow> error + 'a activity list" where
  "activity_loop py_float acc [] = Inr acc"
| "activity_loop py_float acc (n # ns) =
     (case extract_activity py_float n of
        Inl e \<Rightarrow> Inl e
      | Inr a \<Rightarrow> activity_loop py_float (acc @ [a]) ns)"

text \<open>Lines 104 to 146: the loop over the date groups, the dictionary
  \<open>travel_data\<close> being the state.\<close>

fun date_loop ::
  "(string \<Rightarrow> 'a::zero option) \<Rightarrow> (datetime \<times> 'a activity list) list
     \<Rightarrow> date_container list \<Rightarrow> error + (datetime \<times> 'a activity list) list" where
  "date_loop py_float travel_data [] = Inr travel_data"
| "date_loop py_float travel_data (c # cs) =
     (case date_texts c of
        [] \<Rightarrow> date_loop py_float travel_data cs
      | t # _ \<Rightarrow>
          (case strptime_date (strip t) of
             Inl _ \<Rightarrow> date_loop py_float travel_data cs
           | Inr date_obj \<Rightarrow>
               (case activity_loop py_float [] (activity_nodes c) of
                  Inl e \<Rightarrow> Inl e
                | Inr acts \<Rightarrow>
                    (case list_sort (\<lambda>x. strptime_time (time x)) acts of
                       Inl e \<Rightarrow> Inl e
                     | Inr sorted_acts \<Rightarrow>
                         date_loop py_float
                           (dict_set (dict_set travel_data date_obj []) date_obj sorted_acts)
                           cs))))"

text \<open>Lines 149 to 152: one pair per date, the dates in descending order.\<close>

fun label_items ::
  "(datetime \<times> 'v) list \<Rightarrow> datetime list \<Rightarrow> error + (string \<times> 'v) list" where
  "label_items travel_data [] = Inr []"
| "label_items travel_data (date # ds) =
     (case map_of travel_data date of
        None \<Rightarrow> Inl KeyError
      | Some v \<Rightarrow>
          (case label_items travel_data ds of
             Inl e \<Rightarrow> Inl e
           | Inr r \<Rightarrow> Inr ((strftime_date date, v) # r)))"

definition parse_travel_data ::
  "(string \<Rightarrow> 'a::zero option) \<Rightarrow> date_container list
     \<Rightarrow> error + (string \<times> 'a activity list) list" where
  "parse_travel_data py_float tree =
     (case date_loop py_float [] tree of
        Inl e \<Rightarrow> Inl e
      | Inr travel_data \<Rightarrow>
          (case label_items travel_data (sorted_reverse (map fst travel_data)) of
             Inl e \<Rightarrow> Inl e
           | Inr pairs \<Rightarrow> Inr (ordered_dict pairs)))"

section \<open>calculate_totals\<close>

fun totals_activities :: "'a::plus \<times> 'a \<Rightarrow> 'a activity list \<Rightarrow> 'a \<times> 'a" where
  "totals_activities acc [] = acc"
| "totals_activities (total_top_up, total_fare_charged) (a # as) =
     (if start_point a = ''Top Up''
      then totals_activities (total_top_up + fare a, total_fare_charged) as
      else totals_activities (total_top_up, total_fare_charged + fare a) as)"

fun totals_loop ::
  "datetime \<Rightarrow> 'a::plus \<times> 'a \<Rightarrow> (string \<times> 'a activity list) list \<Rightarrow> error + 'a \<times> 'a" where
  "totals_loop last_monday acc [] = Inr acc"
| "totals_loop last_monday acc ((date_str, activities) # rest) =
     (case strptime_date date_str of
        Inl e \<Rightarrow> Inl e
      | Inr date_obj \<Rightarrow>
          if date_obj \<ge> last_monday
          then totals_loop last_monday (totals_activities acc activities) rest
          else totals_loop last_monday acc rest)"

definition calculate_totals ::
  "(string \<times> 'a::{zero,plus} activity list) list \<Rightarrow> datetime \<Rightarrow> error + 'a \<times> 'a" where
  "calculate_totals travel_dict last_monday = totals_loop last_monday (0, 0) travel_dict"

section \<open>get_daily_totals\<close>

text \<open>The value stored for a weekday is the pair of its \<open>topup\<close> and its
  \<open>fares\<close> accumulator.\<close>

fun daily_activities :: "'a::{plus,abs} \<times> 'a \<Rightarrow> 'a activity list \<Rightarrow> 'a \<times> 'a" where
  "daily_activities acc [] = acc"
| "daily_activities (topup, fares) (a # as) =
     (if start_point a = ''Top Up''
      then daily_activities (topup + fare a, fares) as
      else daily_activities (topup, fares + abs (fare a)) as)"

fun daily_loop ::
  "datetime \<Rightarrow> (string \<times> 'a::{zero,plus,abs} \<times> 'a) list
     \<Rightarrow> (string \<times> 'a activity list) list \<Rightarrow> error + (string \<times> 'a \<times> 'a) list" where
  "daily_loop last_monday daily_totals [] = Inr daily_totals"
| "daily_loop last_monday daily_totals ((date_str, activities) # rest) =
     (case strptime_date date_str of
        Inl e \<Rightarrow> Inl e
      | Inr date_obj \<Rightarrow>
          if date_obj < last_monday then daily_loop last_monday daily_totals rest
          else
            (let wd = strftime_A date_obj;
                 daily_totals1 = (if map_of daily_totals wd = None
                                  then dict_set daily_totals wd (0, 0) else daily_totals)
             in case map_of daily_totals1 wd of
                  None \<Rightarrow> Inl KeyError
                | Some acc \<Rightarrow>
                    daily_loop last_monday
                      (dict_set daily_totals1 wd (daily_activities acc activities)) rest))"

definition get_daily_totals ::
  "(string \<times> 'a::{zero,plus,abs} activity list) list \<Rightarrow> datetime
     \<Rightarrow> error + (string \<times> 'a \<times> 'a) list" where
  "get_daily_totals travel_dict last_monday = daily_loop last_monday [] travel_dict"

section \<open>Python floats\<close>

text \<open>
  The amounts of the program are Python floats: a finite number, an infinity, or NaN.
  A finite value is kept as the real number it denotes, and a finite result that is too
  large for a double (at or beyond the largest double plus half a unit in its last place)
  becomes an infinity; the rounding of a finite result to 53 bits is not modelled.  The
  integers 0 and 50 that the program mixes with floats are the floats 0.0 and 50.0, and
  \<open>-0.0\<close> is not told apart from \<open>0.0\<close>, as \<open>==\<close> does not.
\<close>

datatype pyfloat = Num real | PosInf | NegInf | NaN

definition overflow_bound :: real where
  "overflow_bound = 2 ^ 1024 - 2 ^ 970"

definition fl :: "real \<Rightarrow> pyfloat" where
  "fl x = (if overflow_bound \<le> x then PosInf
           else if x \<le> - overflow_bound then NegInf else Num x)"

fun fneg :: "pyfloat \<Rightarrow> pyfloat" where
  "fneg (Num x) = Num (- x)"
| "fneg PosInf = NegInf"
| "fneg NegInf = PosInf"
| "fneg NaN = NaN"

fun fadd :: "pyfloat \<Rightarrow> pyfloat \<Rightarrow> pyfloat" where
  "fadd (Num x) (Num y) = fl (x + y)"
| "fadd NaN b = NaN"
| "fadd a NaN = NaN"
| "fadd PosInf NegInf = NaN"
| "fadd NegInf PosInf = NaN"
| "fadd PosInf b = PosInf"
| "fadd NegInf b = NegInf"
| "fadd (Num x) b = b"

fun fabs :: "pyfloat \<Rightarrow> pyfloat" where
  "fabs (Num x) = Num \<bar>x\<bar>"
| "fabs PosInf = PosInf"
| "fabs NegInf = PosInf"
| "fabs NaN = NaN"

text \<open>The comparison \<open><\<close>: false as soon as one side is NaN.\<close>

fun flt :: "pyfloat \<Rightarrow> pyfloat \<Rightarrow> bool" where
  "flt (Num x) (Num y) = (x < y)"
| "flt NaN b = False"
| "flt a NaN = False"
| "flt NegInf b = (b \<noteq> NegInf)"
| "flt a PosInf = (a \<noteq> PosInf)"
| "flt a b = False"

instantiation pyfloat :: "{zero, plus, minus, uminus, abs, ord}"
begin

definition zero_pyfloat :: pyfloat where
  "zero_pyfloat = Num 0"

definition plus_pyfloat :: "pyfloat \<Rightarrow> pyfloat \<Rightarrow> pyfloat" where
  "plus_pyfloat a b = fadd a b"

definition minus_pyfloat :: "pyfloat \<Rightarrow> pyfloat \<Rightarrow> pyfloat" where
  "minus_pyfloat a b = fadd a (fneg b)"

definition uminus_pyfloat :: "pyfloat \<Rightarrow> pyfloat" where
  "uminus_pyfloat a = fneg a"

definition abs_pyfloat :: "pyfloat \<Rightarrow> pyfloat" where
  "abs_pyfloat a = fabs a"

definition less_pyfloat :: "pyfloat \<Rightarrow> pyfloat \<Rightarrow> bool" where
  "less_pyfloat a b = flt a b"

definition less_eq_pyfloat :: "pyfloat \<Rightarrow> pyfloat \<Rightarrow> bool" where
  "less_eq_pyfloat a b = (flt a b \<or> (a = b \<and> a \<noteq> NaN))"

instance ..

end

text \<open>The builtin \<open>max\<close> of two arguments: the second one if it is greater than the
  first, else the first.\<close>

definition py_max :: "'a::ord \<Rightarrow> 'a \<Rightarrow> 'a" where
  "py_max a b = (if a < b then b else a)"

section \<open>The builtin float on strings\<close>

text \<open>
  \<open>float(s)\<close> removes the white space around the text (here the code points 9..13, 32,
  133 and 160), accepts an underscore between two digits, and reads an optional sign
  followed by \<open>inf\<close>, \<open>infinity\<close> or \<open>nan\<close> in any case, or by a decimal number with
  an optional exponent; any other text raises \<open>ValueError\<close> (\<open>None\<close>).
\<close>

definition is_float_space :: "char \<Rightarrow> bool" where
  "is_float_space c =
     (let n = (of_char c :: nat) in (9 \<le> n \<and> n \<le> 13) \<or> n = 32 \<or> n = 133 \<or> n = 160)"

fun underscores_ok :: "bool \<Rightarrow> string \<Rightarrow> bool" where
  "underscores_ok prev_digit [] = True"
| "underscores_ok prev_digit (c # cs) =
     (if c = CHR ''_''
      then prev_digit \<and> (case cs of [] \<Rightarrow> False | d # _ \<Rightarrow> is_digit d)
             \<and> underscores_ok False cs
      else underscores_ok (is_digit c) cs)"

definition digits_val :: "string \<Rightarrow> nat" where
  "digits_val s = foldl (\<lambda>n c. 10 * n + digit_val c) 0 s"

text \<open>The exponent after the letter \<open>e\<close>: an optional sign and at least one digit.\<close>

definition float_exponent :: "string \<Rightarrow> int option" where
  "float_exponent s =
     (let neg = (case s of c # _ \<Rightarrow> c = CHR ''-'' | [] \<Rightarrow> False);
          d = (case s of c # r \<Rightarrow> if c = CHR ''-'' \<or> c = CHR ''+'' then r else s | [] \<Rightarrow> s)
      in if d \<noteq> [] \<and> list_all is_digit d
         then Some (if neg then - int (digits_val d) else int (digits_val d))
         else None)"

definition float_number :: "string \<Rightarrow> real option" where
  "float_number v =
     (let ip = takeWhile is_digit v;
          r1 = dropWhile is_digit v;
          fp = (case r1 of c # r \<Rightarrow> if c = CHR ''.'' then takeWhile is_digit r else [] | [] \<Rightarrow> []);
          r2 = (case r1 of c # r \<Rightarrow> if c = CHR ''.'' then dropWhile is_digit r else r1 | [] \<Rightarrow> []);
          ex = (case r2 of
                  [] \<Rightarrow> Some 0
                | c # r \<Rightarrow> if c = CHR ''e'' \<or> c = CHR ''E'' then float_exponent r else None);
          m = real (digits_val ip) + real (digits_val fp) / 10 ^ length fp
      in if ip = [] \<and> fp = [] then None
         else (case ex of
                 None \<Rightarrow> None
               | Some e \<Rightarrow> Some (if 0 \<le> e then m * 10 ^ nat e else m / 10 ^ nat (- e))))"

definition float_str :: "string \<Rightarrow> pyfloat option" where
  "float_str s =
     (let t = rev (dropWhile is_float_space (rev (dropWhile is_float_space s)));
          u = filter (\<lambda>c. c \<noteq> CHR ''_'') t;
          neg = (case u of c # _ \<Rightarrow> c = CHR ''-'' | [] \<Rightarrow> False);
          v = (case u of c # r \<Rightarrow> if c = CHR ''-'' \<or> c = CHR ''+'' then r else u | [] \<Rightarrow> u);
          w = map lower v
      in if \<not> underscores_ok False t then None
         else if w = ''inf'' \<or> w = ''infinity'' then Some (if neg then NegInf else PosInf)
         else if w = ''nan'' then Some NaN
         else (case float_number v of
                 None \<Rightarrow> None
               | Some x \<Rightarrow> Some (fl (if neg then - x else x))))"

section \<open>The top-up amount computed in main\<close>

text \<open>Lines 266 to 269: \<open>topup_needed = 50 - (balance - total_fare_charged)\<close>, reset
  to 0 when it is less than 0.\<close>

definition topup_needed :: "pyfloat \<Rightarrow> pyfloat \<Rightarrow> pyfloat" where
  "topup_needed balance total_fare_charged =
     (let t = Num 50 - (balance - total_fare_charged) in if t < 0 then 0 else t)"

section \<open>Notions used in the statements\<close>

text \<open>The date under which a date group is stored, \<open>None\<close> for a group that the
  loop skips (no date text, or a text that \<open>strptime\<close> rejects).\<close>

definition group_date :: "date_container \<Rightarrow> datetime option" where
  "group_date c =
     (case date_texts c of
        [] \<Rightarrow> None
      | t # _ \<Rightarrow> (case strptime_date (strip t) of Inl _ \<Rightarrow> None | Inr d \<Rightarrow> Some d))"

text \<open>The sort key of line 146.\<close>

definition time_key :: "'a activity \<Rightarrow> error + datetime" where
  "time_key x = strptime_time (time x)"

text \<open>The list stored for one kept group: its activities in document order, then
  sorted by time.\<close>

definition group_activities ::
  "(string \<Rightarrow> 'a::zero option) \<Rightarrow> date_container \<Rightarrow> error + 'a activity list" where
  "group_activities py_float c =
     (case activity_loop py_float [] (activity_nodes c) of
        Inl e \<Rightarrow> Inl e
      | Inr acts \<Rightarrow> list_sort (\<lambda>x. strptime_time (time x)) acts)"

text \<open>The activities of the days on or after the cutoff, in iteration order; the days
  are given with their parsed dates.\<close>

definition week_activities :: "datetime \<Rightarrow> (datetime \<times> 'x list) list \<Rightarrow> 'x list" where
  "week_activities last_monday days =
     concat (map snd (filter (\<lambda>(d, acts). last_monday \<le> d) days))"

text \<open>The same, restricted to the days with a given weekday name.\<close>

definition weekday_activities ::
  "datetime \<Rightarrow> string \<Rightarrow> (datetime \<times> 'x list) list \<Rightarrow> 'x list" where
  "weekday_activities last_monday wd days =
     concat (map snd (filter (\<lambda>(d, acts). last_monday \<le> d \<and> strftime_A d = wd) days))"

definition is_top_up :: "'a activity \<Rightarrow> bool" where
  "is_top_up a = (start_point a = ''Top Up'')"

text \<open>The value of an accumulator that starts at \<open>init\<close> and receives \<open>+= x\<close> for
  every \<open>x\<close> of the list, in order.\<close>

definition accumulated :: "'a::plus \<Rightarrow> 'a list \<Rightarrow> 'a" where
  "accumulated init xs = foldl (+) init xs"

text \<open>The label of a date with the year filled with zeros to four digits, the form
  that \<open>strptime\<close> reads back for every year.\<close>

definition zero_filled_label :: "datetime \<Rightarrow> string" where
  "zero_filled_label dt =
     (case dt of (y, m, d, _) \<Rightarrow>
        strftime_A dt @ '' '' @ pad2 d @ '' '' @ month_abbrs ! (m - 1) @ '' '' @ pad4 y)"

text \<open>A node whose amount text, when there is one, is accepted by \<open>float\<close>, and a node
  whose time text, when there is one, has the form \<open>%H:%M\<close>.\<close>

definition fare_ok :: "(string \<Rightarrow> 'a::zero option) \<Rightarrow> activity_node \<Rightarrow> bool" where
  "fare_ok py_float n =
     (case amount_texts n of
        [] \<Rightarrow> True
      | t # _ \<Rightarrow> py_float (replace_dollar (strip t)) \<noteq> None)"

definition time_ok :: "activity_node \<Rightarrow> bool" where
  "time_ok n =
     (case strptime_time (first_text_or (time_texts n) ''00:00'') of
        Inl _ \<Rightarrow> False
      | Inr _ \<Rightarrow> True)"

section \<open>Example documents\<close>

text \<open>A document with a Monday holding a trip and a top-up out of time order, a group
  whose label is not a date, and a Saturday whose only activity has no text at all;
  and the ledger of that document.\<close>

definition scenario_tree :: "date_container list" where
  "scenario_tree =
     [\<lparr>date_texts = [''  Monday 03 Jun 2024 ''],
       activity_nodes =
         [\<lparr>time_texts = [''08:15''], from_texts = [''Home''], to_texts = [''City''],
            amount_texts = [''-$4.50'']\<rparr>,
          \<lparr>time_texts = ['' 07:00''], from_texts = [''Top up machine''], to_texts = [],
            amount_texts = [''$20.00'']\<rparr>]\<rparr>,
      \<lparr>date_texts = [''Sometime Last Week''],
       activity_nodes =
         [\<lparr>time_texts = [''soon''], from_texts = [], to_texts = [], amount_texts = [''N/A'']\<rparr>]\<rparr>,
      \<lparr>date_texts = [''Saturday 01 Jun 2024''],
       activity_nodes =
         [\<lparr>time_texts = [], from_texts = [], to_texts = [], amount_texts = []\<rparr>]\<rparr>]"

definition scenario_ledger :: "(string \<times> pyfloat activity list) list" where
  "scenario_ledger =
     [(''Monday 03 Jun 2024'',
        [\<lparr>time = ''07:00'', start_point = ''Top Up'', end_point = ''Opal Travel App'',
           fare = Num 20\<rparr>,
         \<lparr>time = ''08:15'', start_point = ''Home'', end_point = ''City'', fare = Num (- 9 / 2)\<rparr>]),
      (''Saturday 01 Jun 2024'',
        [\<lparr>time = ''00:00'', start_point = ''Unknown'', end_point = ''Unknown'', fare = Num 0\<rparr>])]"

text \<open>A trip whose amount text is not a number, and a trip whose time text is not a
  time.\<close>

definition bad_fare_tree :: "date_container list" where
  "bad_fare_tree =
     [\<lparr>date_texts = [''Monday 03 Jun 2024''],
       activity_nodes =
         [\<lparr>time_texts = [''08:15''], from_texts = [''Home''], to_texts = [''City''],
            amount_texts = [''N/A'']\<rparr>]\<rparr>]"

definition bad_time_tree :: "date_container list" where
  "bad_time_tree =
     [\<lparr>date_texts = [''Monday 03 Jun 2024''],
       activity_nodes =
         [\<lparr>time_texts = [''soon''], from_texts = [''Home''], to_texts = [''City''],
            amount_texts = [''-$4.50'']\<rparr>]\<rparr>]"

text \<open>The same Monday twice, with a different trip each time.\<close>

definition repeated_date_tree :: "date_container list" where
  "repeated_date_tree =
     [\<lparr>date_texts = [''Monday 03 Jun 2024''],
       activity_nodes =
         [\<lparr>time_texts = [''08:15''], from_texts = [''Home''], to_texts = [''City''],
            amount_texts = [''-$4.50'']\<rparr>]\<rparr>,
      \<lparr>date_texts = [''Monday 03 Jun 2024''],
       activity_nodes =
         [\<lparr>time_texts = [''17:30''], from_texts = [''City''], to_texts = [''Home''],
            amount_texts = [''-$3.00'']\<rparr>]\<rparr>]"

text \<open>A day of the year 999, written with four digits.\<close>

definition old_year_tree :: "date_container list" where
  "old_year_tree =
     [\<lparr>date_texts = [''Tuesday 01 Jan 0999''],
       activity_nodes =
         [\<lparr>time_texts = [''08:15''], from_texts = [''Home''], to_texts = [''City''],
            amount_texts = [''-$4.50'']\<rparr>]\<rparr>]"

text \<open>A top-up whose origin text is already \<open>Top Up\<close>.\<close>

definition exact_top_up_node :: activity_node where
  "exact_top_up_node =
     \<lparr>time_texts = [''09:00''], from_texts = ['' Top Up ''], to_texts = [''Central''],
      amount_texts = [''$10.00'']\<rparr>"

section \<open>Facts about the date and time formats\<close>

lemma digit_char_props:
  assumes "n < 10"
  shows "is_digit (digit_char n)" "digit_val (digit_char n) = n" "\<not> is_space (digit_char n)"
    "(digit_char n = CHR ''0'') = (n = 0)"
  using assms by (auto simp: is_digit_def digit_char_def digit_val_def is_space_def Let_def char_of_eq_iff take_bit_eq_mod)

lemma digit_char_eq_iff:
  "n < 10 \<Longrightarrow> k < 10 \<Longrightarrow> (digit_char n = digit_char k) = (n = k)"
  by (auto simp: digit_char_def char_of_eq_iff take_bit_eq_mod)

lemma digit_char_lits:
  "digit_char 0 = CHR ''0''" "digit_char 1 = CHR ''1''" "digit_char 2 = CHR ''2''" "digit_char 3 = CHR ''3''"
  by (simp_all add: digit_char_def char_of_eq_iff take_bit_eq_mod)

lemma decimal_digits4:
  fixes y :: nat
  assumes "y \<le> 9999"
  shows "1000 * (y div 1000 mod 10) + 100 * (y div 100 mod 10) + 10 * (y div 10 mod 10) + y mod 10 = y"
proof -
  have a: "y mod 10 + 10 * (y div 10) = y" by simp
  have b: "y div 10 mod 10 + 10 * (y div 100) = y div 10"
    using mod_mult_div_eq [of "y div 10" 10] by (simp add: div_mult2_eq [symmetric])
  have c: "y div 100 mod 10 + 10 * (y div 1000) = y div 100"
    using mod_mult_div_eq [of "y div 100" 10] by (simp add: div_mult2_eq [symmetric])
  have d: "y div 1000 mod 10 = y div 1000"
    using assms by simp
  show ?thesis using a b c d by linarith
qed


lemma match_Y_pad4:
  assumes "y \<le> 9999"
  shows "match_Y (pad4 y) = Some (y, [])"
proof -
  have lt: "y div 1000 < 10" using assms by simp
  have dg: "y div 1000 mod 10 < 10" "y div 100 mod 10 < 10" "y div 10 mod 10 < 10" "y mod 10 < 10" by simp_all
  have "match_Y (pad4 y) = Some (1000 * (y div 1000 mod 10) + 100 * (y div 100 mod 10) + 10 * (y div 10 mod 10) + y mod 10, [])"
    unfolding match_Y_def pad4_def
    by (simp only: list.case digit_char_props(1,2) [OF dg(1)] digit_char_props(1,2) [OF dg(2)]
         digit_char_props(1,2) [OF dg(3)] digit_char_props(1,2) [OF dg(4)] simp_thms if_True)
  then show ?thesis by (simp only: decimal_digits4 [OF assms])
qed
lemma match_alt_weekday:
  "wd < 7 \<Longrightarrow> match_alt weekday_names (weekday_names ! wd @ r) = Some (wd, r)"
proof -
  assume "wd < 7"
  then have "wd = 0 \<or> wd = 1 \<or> wd = 2 \<or> wd = 3 \<or> wd = 4 \<or> wd = 5 \<or> wd = 6" by arith
  then show ?thesis
    by (elim disjE) (simp_all add: weekday_names_def lower_def)
qed

lemma match_alt_month:
  "b < 12 \<Longrightarrow> match_alt month_abbrs (month_abbrs ! b @ r) = Some (b, r)"
proof -
  assume "b < 12"
  then have "b = 0 \<or> b = 1 \<or> b = 2 \<or> b = 3 \<or> b = 4 \<or> b = 5 \<or> b = 6 \<or> b = 7 \<or> b = 8 \<or> b = 9 \<or> b = 10 \<or> b = 11" by arith
  then show ?thesis
    by (elim disjE) (simp_all add: month_abbrs_def lower_def)
qed
lemma month_first_not_space:
  "b < 12 \<Longrightarrow> \<exists>c r. month_abbrs ! b = c # r \<and> \<not> is_space c"
proof -
  assume "b < 12"
  then have "b = 0 \<or> b = 1 \<or> b = 2 \<or> b = 3 \<or> b = 4 \<or> b = 5 \<or> b = 6 \<or> b = 7 \<or> b = 8 \<or> b = 9 \<or> b = 10 \<or> b = 11" by arith
  then show ?thesis
    by (elim disjE) (simp_all add: month_abbrs_def is_space_def)
qed
lemma match_spaces_one:
  "\<not> is_space c \<Longrightarrow> match_spaces (CHR '' '' # c # r) = Some (c # r)"
  by (simp add: match_spaces_def is_space_def)


lemma strptime_date_is_date: "strptime_date s = Inr dt \<Longrightarrow> is_date dt"
  by (auto simp: strptime_date_def datetime_new_def is_date_def split: option.splits if_splits Option.bind_splits prod.splits)
lemma weekday_lt7: "weekday dt < 7"
  by (simp add: weekday_def)
lemma days_in_month_le: "1 \<le> m \<Longrightarrow> m \<le> 12 \<Longrightarrow> days_in_month y m \<le> 31"
proof -
  assume "1 \<le> m" "m \<le> 12"
  then have "m = 1 \<or> m = 2 \<or> m = 3 \<or> m = 4 \<or> m = 5 \<or> m = 6 \<or> m = 7 \<or> m = 8 \<or> m = 9 \<or> m = 10 \<or> m = 11 \<or> m = 12" by arith
  then show ?thesis by (elim disjE) (simp_all add: days_in_month_def)
qed
lemma strptime_time_ok: "strptime_time ''00:00'' = Inr (1900, 1, 1, 0, 0, 0, 0)"
  by (simp add: strptime_time_def match_H_def match_M_def is_digit_def digit_val_def datetime_new_def days_in_month_def)


lemma match_d_pad2:
  assumes "1 \<le> d" "d \<le> 31"
  shows "match_d (pad2 d @ CHR '' '' # r) = Some (d, CHR '' '' # r)"
proof -
  have a: "d div 10 mod 10 = d div 10" "d div 10 < 10" "d mod 10 < 10" "d div 10 \<le> 3"
    using assms by auto
  have dd: "10 * (d div 10) + d mod 10 = d" by simp
  have c0: "CHR ''0'' = digit_char 0" "CHR ''1'' = digit_char 1" "CHR ''2'' = digit_char 2" "CHR ''3'' = digit_char 3"
    by (simp_all only: digit_char_lits)
  consider "d div 10 = 0" | "d div 10 = 1" | "d div 10 = 2" | "d div 10 = 3"
    using a(4) by linarith
  then show ?thesis
  proof cases
    case 1
    then have "d mod 10 = d" "d \<noteq> 0" using assms dd by auto
    with 1 show ?thesis
      by (simp add: match_d_def pad2_def c0 digit_char_eq_iff digit_char_props)
  next
    case 2
    then have "d = 10 + d mod 10" using dd by linarith
    with 2 a show ?thesis
      by (simp add: match_d_def pad2_def c0 digit_char_eq_iff digit_char_props)
  next
    case 3
    then have "d = 20 + d mod 10" using dd by linarith
    with 3 a show ?thesis
      by (simp add: match_d_def pad2_def c0 digit_char_eq_iff digit_char_props)
  next
    case 4
    then have e: "d = 30 + d mod 10" using dd by linarith
    with assms have "d mod 10 = 0 \<or> d mod 10 = 1" by linarith
    with 4 e a show ?thesis
      by (auto simp add: match_d_def pad2_def c0 digit_char_eq_iff digit_char_props)
  qed
qed

lemma pad_first_not_space:
  "\<exists>c r. pad2 n = c # r \<and> \<not> is_space c" "\<exists>c r. pad4 n = c # r \<and> \<not> is_space c"
  by (simp_all add: pad2_def pad4_def digit_char_props)

lemma match_spaces_blank:
  "s = c # r \<Longrightarrow> \<not> is_space c \<Longrightarrow> match_spaces (CHR '' '' # s @ t) = Some (s @ t)"
  by (simp add: match_spaces_def is_space_def)

lemma strptime_zero_filled_label:
  assumes "is_date dt"
  shows "strptime_date (zero_filled_label dt) = Inr dt"
proof -
  obtain y m d H M S us where dt: "dt = (y, m, d, H, M, S, us)"
    by (cases dt) auto
  from assms dt have v: "1 \<le> y" "y \<le> 9999" "1 \<le> m" "m \<le> 12" "1 \<le> d" "d \<le> days_in_month y m"
    and z: "H = 0" "M = 0" "S = 0" "us = 0"
    by (simp_all add: is_date_def)
  have d31: "d \<le> 31" using v days_in_month_le [of m y] by linarith
  have mlt: "m - 1 < 12" using v by simp
  define W where "W = weekday_names ! weekday dt"
  define B where "B = month_abbrs ! (m - 1)"
  define t3 where "t3 = CHR '' '' # B @ CHR '' '' # pad4 y"
  have out: "zero_filled_label dt = W @ CHR '' '' # pad2 d @ t3"
    by (simp add: zero_filled_label_def strftime_A_def dt W_def B_def t3_def)
  have s1: "match_alt weekday_names (W @ CHR '' '' # pad2 d @ t3) = Some (weekday dt, CHR '' '' # pad2 d @ t3)"
    unfolding W_def by (rule match_alt_weekday [OF weekday_lt7])
  obtain c r where p2: "pad2 d = c # r" "\<not> is_space c"
    using pad_first_not_space(1) by blast
  have s2: "match_spaces (CHR '' '' # pad2 d @ t3) = Some (pad2 d @ t3)"
    by (rule match_spaces_blank [OF p2])
  have s3: "match_d (pad2 d @ t3) = Some (d, t3)"
    unfolding t3_def by (rule match_d_pad2 [OF v(5) d31])
  obtain c' r' where pb: "B = c' # r'" "\<not> is_space c'"
    using month_first_not_space [OF mlt] unfolding B_def by blast
  have s4: "match_spaces t3 = Some (B @ CHR '' '' # pad4 y)"
    unfolding t3_def by (rule match_spaces_blank [OF pb])
  have s5: "match_alt month_abbrs (B @ CHR '' '' # pad4 y) = Some (m - 1, CHR '' '' # pad4 y)"
    unfolding B_def by (rule match_alt_month [OF mlt])
  obtain c'' r'' where p4: "pad4 y = c'' # r''" "\<not> is_space c''"
    using pad_first_not_space(2) by blast
  have s6: "match_spaces (CHR '' '' # pad4 y) = Some (pad4 y)"
    using match_spaces_blank [OF p4, of "[]"] by simp
  have s7: "match_Y (pad4 y) = Some (y, [])"
    by (rule match_Y_pad4 [OF v(2)])
  have "strptime_date (zero_filled_label dt) = datetime_new y (Suc (m - 1)) d 0 0"
    unfolding out strptime_date_def by (simp add: s1 s2 s3 s4 s5 s6 s7)
  also have "\<dots> = Inr dt"
    using v by (simp add: datetime_new_def dt z)
  finally show ?thesis .
qed

lemma zero_filled_label_inj:
  "is_date a \<Longrightarrow> is_date b \<Longrightarrow> zero_filled_label a = zero_filled_label b \<Longrightarrow> a = b"
  by (metis strptime_zero_filled_label sum.inject(2))

lemma strftime_date_zero_filled:
  "1000 \<le> fst dt \<Longrightarrow> strftime_date dt = zero_filled_label dt"
  by (cases dt) (simp add: strftime_date_def zero_filled_label_def strftime_Y_def)

lemma strptime_strftime_date:
  "is_date dt \<Longrightarrow> 1000 \<le> fst dt \<Longrightarrow> strptime_date (strftime_date dt) = Inr dt"
  by (simp add: strftime_date_zero_filled strptime_zero_filled_label)

lemma pad4_strftime_Y:
  "pad4 y = replicate (4 - length (strftime_Y y)) (CHR ''0'') @ strftime_Y y"
  by (simp add: pad4_def strftime_Y_def pad2_def digit_char_lits numeral_3_eq_3 numeral_2_eq_2)

lemma strftime_Y_inj:
  assumes "y \<le> 9999" "y' \<le> 9999" "strftime_Y y = strftime_Y y'"
  shows "y = y'"
proof -
  have "pad4 y = pad4 y'"
    using pad4_strftime_Y [of y] pad4_strftime_Y [of y'] assms(3) by simp
  then have "match_Y (pad4 y) = match_Y (pad4 y')" by simp
  then show ?thesis
    by (simp add: match_Y_pad4 [OF assms(1)] match_Y_pad4 [OF assms(2)])
qed

lemma weekday_name_upto_blank:
  "wd < 7 \<Longrightarrow> takeWhile (\<lambda>c. c \<noteq> CHR '' '') (weekday_names ! wd @ CHR '' '' # r) = weekday_names ! wd"
proof -
  assume "wd < 7"
  then have "wd = 0 \<or> wd = 1 \<or> wd = 2 \<or> wd = 3 \<or> wd = 4 \<or> wd = 5 \<or> wd = 6" by arith
  then show ?thesis
    by (elim disjE) (simp_all add: weekday_names_def)
qed

lemma month_abbr_length: "b < 12 \<Longrightarrow> length (month_abbrs ! b) = 3"
proof -
  assume "b < 12"
  then have "b = 0 \<or> b = 1 \<or> b = 2 \<or> b = 3 \<or> b = 4 \<or> b = 5 \<or> b = 6 \<or> b = 7 \<or> b = 8 \<or> b = 9 \<or> b = 10 \<or> b = 11" by arith
  then show ?thesis
    by (elim disjE) (simp_all add: month_abbrs_def)
qed

lemma label_split:
  assumes "is_date dt"
  shows "\<exists>P. length P = length (strftime_A dt) + 8 \<and>
     strftime_date dt = P @ strftime_Y (fst dt) \<and> zero_filled_label dt = P @ pad4 (fst dt) \<and>
     takeWhile (\<lambda>c. c \<noteq> CHR '' '') (strftime_date dt) = strftime_A dt \<and> fst dt \<le> 9999"
proof -
  obtain y m d H M S us where dt: "dt = (y, m, d, H, M, S, us)"
    by (cases dt) auto
  from assms dt have v: "y \<le> 9999" "1 \<le> m" "m \<le> 12"
    by (simp_all add: is_date_def)
  have mlt: "m - 1 < 12" using v by simp
  let ?P = "strftime_A dt @ CHR '' '' # pad2 d @ CHR '' '' # month_abbrs ! (m - 1) @ '' ''"
  have "length ?P = length (strftime_A dt) + 8"
    using month_abbr_length [OF mlt] by (simp add: pad2_def)
  moreover have "strftime_date dt = ?P @ strftime_Y (fst dt)"
    by (simp add: strftime_date_def dt)
  moreover have "zero_filled_label dt = ?P @ pad4 (fst dt)"
    by (simp add: zero_filled_label_def dt)
  moreover have "takeWhile (\<lambda>c. c \<noteq> CHR '' '') (strftime_date dt) = strftime_A dt"
    unfolding strftime_date_def dt strftime_A_def prod.case append_Cons append_Nil
    by (rule weekday_name_upto_blank [OF weekday_lt7])
  ultimately show ?thesis using v(1) dt by (intro exI [of _ ?P]) simp
qed

lemma strftime_date_inj:
  assumes "is_date a" "is_date b" "strftime_date a = strftime_date b"
  shows "a = b"
proof -
  from label_split [OF assms(1)] obtain P where P:
    "length P = length (strftime_A a) + 8" "strftime_date a = P @ strftime_Y (fst a)"
    "zero_filled_label a = P @ pad4 (fst a)"
    "takeWhile (\<lambda>c. c \<noteq> CHR '' '') (strftime_date a) = strftime_A a" "fst a \<le> 9999"
    by blast
  from label_split [OF assms(2)] obtain Q where Q:
    "length Q = length (strftime_A b) + 8" "strftime_date b = Q @ strftime_Y (fst b)"
    "zero_filled_label b = Q @ pad4 (fst b)"
    "takeWhile (\<lambda>c. c \<noteq> CHR '' '') (strftime_date b) = strftime_A b" "fst b \<le> 9999"
    by blast
  have "strftime_A a = strftime_A b"
    using P(4) Q(4) assms(3) by simp
  then have len: "length P = length Q" using P(1) Q(1) by simp
  have "P @ strftime_Y (fst a) = Q @ strftime_Y (fst b)"
    using P(2) Q(2) assms(3) by simp
  with len have pq: "P = Q" and yy: "strftime_Y (fst a) = strftime_Y (fst b)"
    by simp_all
  have "fst a = fst b" by (rule strftime_Y_inj [OF P(5) Q(5) yy])
  then have "zero_filled_label a = zero_filled_label b"
    using P(3) Q(3) pq by simp
  then show ?thesis by (rule zero_filled_label_inj [OF assms(1,2)])
qed

lemma strftime_examples:
  "strftime_date (2024, 6, 3, 0, 0, 0, 0) = ''Monday 03 Jun 2024''"
  "strftime_date (2024, 6, 1, 0, 0, 0, 0) = ''Saturday 01 Jun 2024''"
  "strftime_date (999, 1, 1, 0, 0, 0, 0) = ''Tuesday 01 Jan 999''"
  "strftime_A (2024, 6, 3, 0, 0, 0, 0) = ''Monday''"
  "strftime_A (2024, 6, 1, 0, 0, 0, 0) = ''Saturday''"
  "strftime_date (2024, 6, Suc 0, 0, 0, 0, 0) = ''Saturday 01 Jun 2024''"
  "strftime_date (999, Suc 0, Suc 0, 0, 0, 0, 0) = ''Tuesday 01 Jan 999''"
  "strftime_A (2024, 6, Suc 0, 0, 0, 0, 0) = ''Saturday''"
  by (simp_all add: strftime_date_def strftime_A_def strftime_Y_def weekday_def toordinal_def
        days_before_year_def days_before_month_def is_leap_def weekday_names_def
        month_abbrs_def pad2_def pad4_def digit_char_def char_of_eq_iff take_bit_eq_mod)

lemma strptime_examples2:
  "strptime_date ''Tuesday 01 Jan 999'' = Inl ValueError"
  "strptime_date ''Tuesday 01 Jan 0999'' = Inr (999, 1, 1, 0, 0, 0, 0)"
  "strptime_date ''Sometime Last Week'' = Inl ValueError"
  by code_simp+

section \<open>Facts about dictionaries and sorting\<close>

lemma map_of_dict_set: "map_of (dict_set d k v) = (map_of d)(k \<mapsto> v)"
  by (induction d) (auto simp: fun_eq_iff)

lemma keys_dict_set:
  "map fst (dict_set d k v) = (if k \<in> fst ` set d then map fst d else map fst d @ [k])"
  by (induction d) (fastforce simp: image_iff)+

lemma distinct_dict_set: "distinct (map fst d) \<Longrightarrow> distinct (map fst (dict_set d k v))"
  by (simp add: keys_dict_set)

lemma dict_set_twice: "dict_set (dict_set d k u) k v = dict_set d k v"
  by (induction d) auto

lemma dict_set_fresh: "k \<notin> fst ` set d \<Longrightarrow> dict_set d k v = d @ [(k, v)]"
  by (induction d) auto

lemma foldl_dict_set_distinct:
  "distinct (map fst ps) \<Longrightarrow> fst ` set d \<inter> fst ` set ps = {} \<Longrightarrow>
   foldl (\<lambda>d (k, v). dict_set d k v) d ps = d @ ps"
proof (induction ps arbitrary: d)
  case Nil
  then show ?case by simp
next
  case (Cons p ps)
  obtain k v where p: "p = (k, v)" by (cases p)
  from Cons.prems have fresh: "k \<notin> fst ` set d" by (auto simp: p)
  have "foldl (\<lambda>d (k, v). dict_set d k v) (d @ [(k, v)]) ps = (d @ [(k, v)]) @ ps"
    using Cons.prems by (intro Cons.IH) (auto simp: p)
  then show ?case by (simp add: p dict_set_fresh [OF fresh])
qed

lemma ordered_dict_distinct: "distinct (map fst ps) \<Longrightarrow> ordered_dict ps = ps"
  using foldl_dict_set_distinct [of ps "[]"] by (simp add: ordered_dict_def)

lemma sorted_reverse_props:
  "set (sorted_reverse xs) = set xs"
  "distinct xs \<Longrightarrow> distinct (sorted_reverse xs)"
  "distinct xs \<Longrightarrow> sorted_wrt (\<lambda>a b. a > b) (sorted_reverse xs)"
proof -
  show "set (sorted_reverse xs) = set xs" by (simp add: sorted_reverse_def)
  show "distinct xs \<Longrightarrow> distinct (sorted_reverse xs)" by (simp add: sorted_reverse_def)
  assume d: "distinct xs"
  have "sorted_wrt (<) (sort_key (\<lambda>x. x) (rev xs))"
    using d by (simp add: strict_sorted_iff)
  then show "sorted_wrt (\<lambda>a b. a > b) (sorted_reverse xs)"
    by (simp add: sorted_reverse_def sorted_wrt_rev)
qed

lemma sort_keys_Inr:
  "sort_keys f xs = Inr kxs \<Longrightarrow> map snd kxs = xs \<and> (\<forall>p\<in>set kxs. f (snd p) = Inr (fst p))"
  by (induction xs arbitrary: kxs) (auto split: sum.splits)

lemma sort_keys_Inl:
  "sort_keys f xs = Inl e \<Longrightarrow> \<exists>x\<in>set xs. f x = Inl e"
  by (induction xs) (auto split: sum.splits)

lemma sort_keys_total:
  "\<forall>x\<in>set xs. \<exists>k. f x = Inr k \<Longrightarrow> \<exists>kxs. sort_keys f xs = Inr kxs"
  by (induction xs) (auto split: sum.splits)

lemma list_sort_Inr:
  fixes f :: "'x \<Rightarrow> error + 'k::linorder"
  assumes "list_sort f xs = Inr ys"
  shows "\<exists>ks. map f ys = map Inr ks \<and> sorted ks"
    and "\<And>k. filter (\<lambda>x. f x = Inr k) ys = filter (\<lambda>x. f x = Inr k) xs"
    and "set ys = set xs"
proof -
  from assms obtain kxs where kxs: "sort_keys f xs = Inr kxs"
    and ys: "ys = map snd (sort_key fst kxs)"
    by (auto simp: list_sort_def split: sum.splits)
  from sort_keys_Inr [OF kxs] have xs: "map snd kxs = xs"
    and key: "\<And>p. p \<in> set kxs \<Longrightarrow> f (snd p) = Inr (fst p)" by auto
  have "map f ys = map Inr (map fst (sort_key fst kxs))"
    by (simp add: ys key)
  moreover have "sorted (map fst (sort_key fst kxs))" by simp
  ultimately show "\<exists>ks. map f ys = map Inr ks \<and> sorted ks" by blast
  show "set ys = set xs"
    using xs by (simp add: ys) (metis set_map)
  fix k
  have "filter (\<lambda>x. f x = Inr k) ys = map snd (filter (\<lambda>p. f (snd p) = Inr k) (sort_key fst kxs))"
    by (simp add: ys filter_map o_def)
  also have "filter (\<lambda>p. f (snd p) = Inr k) (sort_key fst kxs) = filter (\<lambda>p. fst p = k) (sort_key fst kxs)"
    by (rule filter_cong) (auto simp: key)
  also have "\<dots> = filter (\<lambda>p. fst p = k) kxs"
    by (rule sort_key_stable)
  also have "\<dots> = filter (\<lambda>p. f (snd p) = Inr k) kxs"
    by (rule filter_cong) (auto simp: key)
  also have "map snd \<dots> = filter (\<lambda>x. f x = Inr k) (map snd kxs)"
    by (simp add: filter_map o_def)
  finally show "filter (\<lambda>x. f x = Inr k) ys = filter (\<lambda>x. f x = Inr k) xs"
    by (simp add: xs)
qed

lemma list_sort_Inl:
  "list_sort f xs = Inl e \<Longrightarrow> \<exists>x\<in>set xs. f x = Inl e"
  by (auto simp: list_sort_def split: sum.splits dest: sort_keys_Inl)

lemma list_sort_total:
  "\<forall>x\<in>set xs. \<exists>k. f x = Inr k \<Longrightarrow> \<exists>ys. list_sort f xs = Inr ys"
  using sort_keys_total [of xs f] by (auto simp: list_sort_def)

section \<open>Facts about the weekly totals\<close>

lemma totals_activities_eq:
  "totals_activities (tu, fc) acts =
     (accumulated tu (map fare (filter is_top_up acts)),
      accumulated fc (map fare (filter (\<lambda>a. \<not> is_top_up a) acts)))"
  by (induction acts arbitrary: tu fc) (auto simp: accumulated_def is_top_up_def)

lemma accumulated_append: "accumulated init (xs @ ys) = accumulated (accumulated init xs) ys"
  by (simp add: accumulated_def)

lemma week_activities_Cons:
  "week_activities lm ((d, acts) # days) =
     (if lm \<le> d then acts @ week_activities lm days else week_activities lm days)"
  by (simp add: week_activities_def)

lemma totals_loop_eq:
  "map (\<lambda>p. strptime_date (fst p)) items = map Inr ds \<Longrightarrow>
   totals_loop lm (tu, fc) items =
     Inr (accumulated tu (map fare (filter is_top_up (week_activities lm (zip ds (map snd items))))),
          accumulated fc (map fare (filter (\<lambda>a. \<not> is_top_up a) (week_activities lm (zip ds (map snd items))))))"
proof (induction items arbitrary: ds tu fc)
  case Nil
  then show ?case by (simp add: week_activities_def accumulated_def)
next
  case (Cons p items)
  obtain s acts where p: "p = (s, acts)" by (cases p)
  from Cons.prems obtain d ds' where ds: "ds = d # ds'" and d: "strptime_date s = Inr d"
    and rest: "map (\<lambda>p. strptime_date (fst p)) items = map Inr ds'"
    by (cases ds) (auto simp: p)
  show ?case
    by (simp add: p ds d week_activities_Cons totals_activities_eq Cons.IH [OF rest] accumulated_append)
qed

lemma strptime_examples:
  "strptime_date ''Monday 03 Jun 2024'' = Inr (2024, 6, 3, 0, 0, 0, 0)"
  "strptime_date ''Saturday 01 Jun 2024'' = Inr (2024, 6, 1, 0, 0, 0, 0)"
  by code_simp+

section \<open>Facts about the daily totals\<close>

lemma daily_activities_eq:
  "daily_activities (t, f) acts =
     (accumulated t (map fare (filter is_top_up acts)),
      accumulated f (map (\<lambda>a. abs (fare a)) (filter (\<lambda>a. \<not> is_top_up a) acts)))"
  by (induction acts arbitrary: t f) (auto simp: accumulated_def is_top_up_def)

lemma daily_activities_append:
  "daily_activities acc (xs @ ys) = daily_activities (daily_activities acc xs) ys"
  by (induction acc xs rule: daily_activities.induct) auto

lemma weekday_activities_Cons:
  "weekday_activities lm w ((d, acts) # days) =
     (if lm \<le> d \<and> strftime_A d = w then acts @ weekday_activities lm w days
      else weekday_activities lm w days)"
  by (simp add: weekday_activities_def)

lemma weekday_activities_none:
  "\<not> (\<exists>p\<in>set days. lm \<le> fst p \<and> strftime_A (fst p) = w) \<Longrightarrow> weekday_activities lm w days = []"
  by (induction days) (auto simp: weekday_activities_def)

lemma daily_loop_step:
  assumes "strptime_date s = Inr d"
  shows "daily_loop lm dt ((s, acts) # rest) =
     (if d < lm then daily_loop lm dt rest
      else daily_loop lm
             (dict_set dt (strftime_A d)
                (daily_activities (case map_of dt (strftime_A d) of None \<Rightarrow> (0, 0) | Some acc \<Rightarrow> acc) acts))
             rest)"
  using assms by (auto simp: Let_def map_of_dict_set dict_set_twice split: option.splits)

lemma daily_loop_eq:
  "map (\<lambda>p. strptime_date (fst p)) items = map Inr ds \<Longrightarrow>
   \<exists>dt'. daily_loop lm dt items = Inr dt' \<and>
     (\<forall>w. map_of dt' w =
        (if \<exists>p\<in>set (zip ds (map snd items)). lm \<le> fst p \<and> strftime_A (fst p) = w
         then Some (daily_activities (case map_of dt w of None \<Rightarrow> (0, 0) | Some acc \<Rightarrow> acc)
                      (weekday_activities lm w (zip ds (map snd items))))
         else map_of dt w))"
proof (induction items arbitrary: ds dt)
  case Nil
  then show ?case by simp
next
  case (Cons p items)
  obtain s acts where p: "p = (s, acts)" by (cases p)
  from Cons.prems obtain d ds' where ds: "ds = d # ds'" and d: "strptime_date s = Inr d"
    and rest: "map (\<lambda>p. strptime_date (fst p)) items = map Inr ds'"
    by (cases ds) (auto simp: p)
  let ?days = "zip ds' (map snd items)"
  show ?case
  proof (cases "d < lm")
    case True
    from Cons.IH [OF rest, of dt] obtain dt' where
      r: "daily_loop lm dt items = Inr dt'" and
      m: "\<And>w. map_of dt' w =
        (if \<exists>p\<in>set ?days. lm \<le> fst p \<and> strftime_A (fst p) = w
         then Some (daily_activities (case map_of dt w of None \<Rightarrow> (0, 0) | Some acc \<Rightarrow> acc)
                      (weekday_activities lm w ?days))
         else map_of dt w)"
      by blast
    from True have nle: "\<not> lm \<le> d" by simp
    show ?thesis
      unfolding p ds
      by (simp only: daily_loop_step [OF d] True if_True r)
         (auto simp add: m nle weekday_activities_Cons)
  next
    case False
    then have le: "lm \<le> d" by simp
    define wd where "wd = strftime_A d"
    define acc0 where "acc0 = (case map_of dt wd of None \<Rightarrow> (0, 0) | Some acc \<Rightarrow> acc)"
    define dt1 where "dt1 = dict_set dt wd (daily_activities acc0 acts)"
    from Cons.IH [OF rest, of dt1] obtain dt' where
      r: "daily_loop lm dt1 items = Inr dt'" and
      m: "\<And>w. map_of dt' w =
        (if \<exists>p\<in>set ?days. lm \<le> fst p \<and> strftime_A (fst p) = w
         then Some (daily_activities (case map_of dt1 w of None \<Rightarrow> (0, 0) | Some acc \<Rightarrow> acc)
                      (weekday_activities lm w ?days))
         else map_of dt1 w)"
      by blast
    have step: "daily_loop lm dt ((s, acts) # items) = Inr dt'"
      by (simp only: daily_loop_step [OF d] False if_False)
         (simp add: r [unfolded dt1_def acc0_def wd_def])
    have m1: "map_of dt1 w = (if w = wd then Some (daily_activities acc0 acts) else map_of dt w)" for w
      by (simp add: dt1_def map_of_dict_set)
    have claim: "map_of dt' w =
        (if \<exists>p\<in>set ((d, acts) # ?days). lm \<le> fst p \<and> strftime_A (fst p) = w
         then Some (daily_activities (case map_of dt w of None \<Rightarrow> (0, 0) | Some acc \<Rightarrow> acc)
                      (weekday_activities lm w ((d, acts) # ?days)))
         else map_of dt w)" for w
    proof (cases "w = wd")
      case True
      show ?thesis
      proof (cases "\<exists>p\<in>set ?days. lm \<le> fst p \<and> strftime_A (fst p) = w")
        case ex: True
        then show ?thesis
          using True le
          by (simp add: m m1 weekday_activities_Cons wd_def [symmetric] acc0_def [symmetric]
                daily_activities_append)
      next
        case nex: False
        then have "weekday_activities lm w ?days = []"
          by (rule weekday_activities_none)
        then show ?thesis
          using True le nex
          by (simp add: m m1 weekday_activities_Cons wd_def [symmetric] acc0_def [symmetric])
      qed
    next
      case False
      then show ?thesis
        by (auto simp add: m m1 weekday_activities_Cons wd_def [symmetric])
    qed
    have z: "zip (d # ds') (map snd ((s, acts) # items)) = (d, acts) # ?days" by simp
    show ?thesis
      unfolding p ds z
    proof (intro exI conjI allI)
      show "daily_loop lm dt ((s, acts) # items) = Inr dt'" by (rule step)
      show "map_of dt' w =
        (if \<exists>p\<in>set ((d, acts) # ?days). lm \<le> fst p \<and> strftime_A (fst p) = w
         then Some (daily_activities (case map_of dt w of None \<Rightarrow> (0, 0) | Some acc \<Rightarrow> acc)
                      (weekday_activities lm w ((d, acts) # ?days)))
         else map_of dt w)" for w
        by (rule claim)
    qed
  qed
qed

section \<open>Facts about the loop over the date groups\<close>

lemma set_dict_set: "set (dict_set d k v) \<subseteq> insert (k, v) (set d)"
  by (induction d) (auto split: if_splits)

lemma group_date_is_date: "group_date c = Some d \<Longrightarrow> is_date d"
  by (auto simp: group_date_def split: list.splits sum.splits dest: strptime_date_is_date)

lemma date_loop_Cons:
  "date_loop pf td (c # cs) =
     (case group_date c of
        None \<Rightarrow> date_loop pf td cs
      | Some d \<Rightarrow>
          (case group_activities pf c of
             Inl e \<Rightarrow> Inl e
           | Inr s \<Rightarrow> date_loop pf (dict_set td d s) cs))"
  by (simp add: group_date_def group_activities_def dict_set_twice split: list.splits sum.splits)

lemma date_loop_append:
  "date_loop pf td (pre @ post) =
     (case date_loop pf td pre of Inl e \<Rightarrow> Inl e | Inr t \<Rightarrow> date_loop pf t post)"
proof (induction pre arbitrary: td)
  case Nil
  show ?case by simp
next
  case (Cons c pre)
  show ?case
    by (simp only: append_Cons date_loop_Cons) (simp add: Cons.IH split: option.splits sum.splits)
qed

lemma date_loop_skip:
  "group_date c = None \<Longrightarrow> date_loop pf td (pre @ c # post) = date_loop pf td (pre @ post)"
  by (simp add: date_loop_append date_loop_Cons del: date_loop.simps split: sum.splits)

lemma date_loop_keys:
  "date_loop pf td cs = Inr td' \<Longrightarrow>
   fst ` set td' = fst ` set td \<union> {d. \<exists>c\<in>set cs. group_date c = Some d}"
proof (induction cs arbitrary: td)
  case Nil
  then show ?case by simp
next
  case (Cons c cs)
  show ?case
  proof (cases "group_date c")
    case None
    with Cons.prems have "date_loop pf td cs = Inr td'" by (simp add: date_loop_Cons del: date_loop.simps)
    from Cons.IH [OF this] None show ?thesis by auto
  next
    case (Some d)
    with Cons.prems obtain s where s: "group_activities pf c = Inr s"
      and r: "date_loop pf (dict_set td d s) cs = Inr td'"
      by (auto simp add: date_loop_Cons simp del: date_loop.simps split: sum.splits)
    have k: "fst ` set (dict_set td d s) = insert d (fst ` set td)"
      using keys_dict_set [of td d s] by (metis (no_types, lifting) insert_absorb list.set_map set_append list.set(1,2) Un_insert_right sup_bot.right_neutral)
    from Cons.IH [OF r] Some show ?thesis
      unfolding k by auto
  qed
qed

lemma date_loop_distinct:
  "date_loop pf td cs = Inr td' \<Longrightarrow> distinct (map fst td) \<Longrightarrow> distinct (map fst td')"
proof (induction cs arbitrary: td)
  case Nil
  then show ?case by simp
next
  case (Cons c cs)
  then show ?case
    by (auto simp add: date_loop_Cons distinct_dict_set simp del: date_loop.simps
          split: option.splits sum.splits)
qed

lemma date_loop_unchanged:
  "date_loop pf td cs = Inr td' \<Longrightarrow> \<forall>c\<in>set cs. group_date c \<noteq> Some d \<Longrightarrow>
   map_of td' d = map_of td d"
proof (induction cs arbitrary: td)
  case Nil
  then show ?case by simp
next
  case (Cons c cs)
  then show ?case
    by (auto simp add: date_loop_Cons map_of_dict_set simp del: date_loop.simps
          split: option.splits sum.splits)
qed

lemma date_loop_last:
  assumes "date_loop pf td (pre @ c # post) = Inr td'"
    and "group_date c = Some d"
    and "\<forall>c'\<in>set post. group_date c' \<noteq> Some d"
  shows "\<exists>s. group_activities pf c = Inr s \<and> map_of td' d = Some s"
proof -
  from assms(1) obtain t where "date_loop pf t (c # post) = Inr td'"
    by (auto simp add: date_loop_append simp del: date_loop.simps split: sum.splits)
  with assms(2) obtain s where s: "group_activities pf c = Inr s"
    and r: "date_loop pf (dict_set t d s) post = Inr td'"
    by (auto simp add: date_loop_Cons simp del: date_loop.simps split: sum.splits)
  from date_loop_unchanged [OF r assms(3)] have "map_of td' d = Some s"
    by (simp add: map_of_dict_set)
  with s show ?thesis by blast
qed

lemma date_loop_values:
  "date_loop pf td cs = Inr td' \<Longrightarrow> (d, acts) \<in> set td' \<Longrightarrow>
   (d, acts) \<in> set td \<or> (\<exists>c\<in>set cs. group_date c = Some d \<and> group_activities pf c = Inr acts)"
proof (induction cs arbitrary: td)
  case Nil
  then show ?case by simp
next
  case (Cons c cs)
  show ?case
  proof (cases "group_date c")
    case None
    with Cons.prems have "date_loop pf td cs = Inr td'" by (simp add: date_loop_Cons del: date_loop.simps)
    from Cons.IH [OF this Cons.prems(2)] show ?thesis by auto
  next
    case (Some d')
    with Cons.prems obtain s where s: "group_activities pf c = Inr s"
      and r: "date_loop pf (dict_set td d' s) cs = Inr td'"
      by (auto simp add: date_loop_Cons simp del: date_loop.simps split: sum.splits)
    have sub: "set (dict_set td d' s) \<subseteq> insert (d', s) (set td)"
      by (rule set_dict_set)
    from Cons.IH [OF r Cons.prems(2)] sub Some s show ?thesis by auto
  qed
qed

lemma date_loop_Inl:
  "date_loop pf td cs = Inl e \<Longrightarrow>
   \<exists>c\<in>set cs. group_date c \<noteq> None \<and> group_activities pf c = Inl e"
proof (induction cs arbitrary: td)
  case Nil
  then show ?case by simp
next
  case (Cons c cs)
  then show ?case
    by (auto simp add: date_loop_Cons simp del: date_loop.simps split: option.splits sum.splits)
qed

lemma date_loop_total:
  "\<forall>c\<in>set cs. group_date c \<noteq> None \<longrightarrow> (\<exists>s. group_activities pf c = Inr s) \<Longrightarrow>
   \<exists>td'. date_loop pf td cs = Inr td'"
proof (induction cs arbitrary: td)
  case Nil
  then show ?case by simp
next
  case (Cons c cs)
  then show ?case
    by (auto simp add: date_loop_Cons simp del: date_loop.simps split: option.splits sum.splits)
qed

section \<open>Facts about the ledger\<close>

lemma label_items_eq:
  "set ds \<subseteq> fst ` set td \<Longrightarrow>
   label_items td ds = Inr (map (\<lambda>d. (strftime_date d, the (map_of td d))) ds)"
proof (induction ds)
  case Nil
  show ?case by simp
next
  case (Cons d ds)
  then have "d \<in> fst ` set td" by simp
  then obtain v where "map_of td d = Some v"
    by (metis map_of_eq_None_iff not_None_eq)
  with Cons show ?case by simp
qed

lemma map_of_map_inj:
  "inj_on f (insert d (set ks)) \<Longrightarrow>
   map_of (map (\<lambda>k. (f k, g k)) ks) (f d) = (if d \<in> set ks then Some (g d) else None)"
  by (induction ks) (auto simp: inj_on_def)

lemma strftime_date_inj_on: "\<forall>d\<in>D. is_date d \<Longrightarrow> inj_on strftime_date D"
  unfolding inj_on_def using strftime_date_inj by blast

lemma date_loop_is_date:
  assumes "date_loop pf [] tree = Inr td" "d \<in> fst ` set td"
  shows "is_date d"
  using date_loop_keys [OF assms(1)] assms(2) by (auto dest: group_date_is_date)

lemma parse_travel_data_of_loop:
  assumes "date_loop pf [] tree = Inr td"
  shows "parse_travel_data pf tree =
     Inr (map (\<lambda>d. (strftime_date d, the (map_of td d))) (sorted_reverse (map fst td)))"
proof -
  let ?ks = "sorted_reverse (map fst td)"
  let ?pairs = "map (\<lambda>d. (strftime_date d, the (map_of td d))) ?ks"
  have dist: "distinct (map fst td)"
    using date_loop_distinct [OF assms] by simp
  have ks: "set ?ks = fst ` set td" "distinct ?ks"
    using dist by (simp_all add: sorted_reverse_props)
  have li: "label_items td ?ks = Inr ?pairs"
    by (rule label_items_eq) (simp add: ks)
  have "inj_on strftime_date (set ?ks)"
    by (rule strftime_date_inj_on) (auto simp: ks(1) intro: date_loop_is_date [OF assms])
  then have "distinct (map fst ?pairs)"
    using ks(2) by (simp add: o_def distinct_map)
  then have "ordered_dict ?pairs = ?pairs" by (rule ordered_dict_distinct)
  then show ?thesis
    by (simp add: parse_travel_data_def assms li)
qed

lemma parse_travel_data_Inl:
  "date_loop pf [] tree = Inl e \<Longrightarrow> parse_travel_data pf tree = Inl e"
  by (simp add: parse_travel_data_def)

lemma parse_travel_data_Inr:
  assumes "parse_travel_data pf tree = Inr ledger"
  obtains td where "date_loop pf [] tree = Inr td"
    and "ledger = map (\<lambda>d. (strftime_date d, the (map_of td d))) (sorted_reverse (map fst td))"
proof (cases "date_loop pf [] tree")
  case (Inl e)
  with assms show ?thesis by (simp add: parse_travel_data_def)
next
  case (Inr td)
  with parse_travel_data_of_loop [OF Inr] assms that show ?thesis by simp
qed

lemma ledger_lookup:
  assumes "date_loop pf [] tree = Inr td" "is_date d"
  shows "map_of (map (\<lambda>d. (strftime_date d, the (map_of td d))) (sorted_reverse (map fst td)))
           (strftime_date d) = map_of td d"
proof -
  let ?ks = "sorted_reverse (map fst td)"
  have ks: "set ?ks = fst ` set td" by (simp add: sorted_reverse_props)
  have "\<forall>x\<in>insert d (set ?ks). is_date x"
    using assms(2) date_loop_is_date [OF assms(1)] unfolding ks by blast
  then have "inj_on strftime_date (insert d (set ?ks))"
    by (rule strftime_date_inj_on)
  from map_of_map_inj [OF this, of "\<lambda>d. the (map_of td d)"]
  have m: "map_of (map (\<lambda>d. (strftime_date d, the (map_of td d))) ?ks) (strftime_date d) =
      (if d \<in> fst ` set td then Some (the (map_of td d)) else None)"
    unfolding ks .
  show ?thesis
  proof (cases "d \<in> fst ` set td")
    case True
    then obtain v where "map_of td d = Some v"
      by (metis map_of_eq_None_iff not_None_eq)
    with True m show ?thesis by simp
  next
    case False
    then have "map_of td d = None" by (simp add: map_of_eq_None_iff)
    with False m show ?thesis by simp
  qed
qed

lemma ledger_entry:
  assumes "date_loop pf [] tree = Inr td"
    and "(label, acts) \<in> set (map (\<lambda>d. (strftime_date d, the (map_of td d))) (sorted_reverse (map fst td)))"
  shows "\<exists>d. label = strftime_date d \<and> (d, acts) \<in> set td"
proof -
  have ks: "set (sorted_reverse (map fst td)) = fst ` set td" by (simp add: sorted_reverse_props)
  from assms(2) have "(label, acts) \<in> (\<lambda>d. (strftime_date d, the (map_of td d))) ` (fst ` set td)"
    unfolding set_map ks .
  then obtain d where d: "d \<in> fst ` set td" "label = strftime_date d"
    "acts = the (map_of td d)"
    by blast
  from d(1) obtain v where v: "map_of td d = Some v"
    by (metis map_of_eq_None_iff not_None_eq)
  then have in_td: "(d, v) \<in> set td" by (rule map_of_SomeD)
  have "acts = v" using d(3) v by simp
  with in_td d(2) show ?thesis by blast
qed

lemma activity_loop_eq:
  "activity_loop pf acc ns = Inr r \<longleftrightarrow>
     (\<exists>as. map (extract_activity pf) ns = map Inr as \<and> r = acc @ as)"
proof (induction ns arbitrary: acc)
  case Nil
  show ?case by auto
next
  case (Cons n ns)
  show ?case
  proof (cases "extract_activity pf n")
    case (Inl e)
    then show ?thesis by (auto simp: map_eq_Cons_conv)
  next
    case (Inr a)
    then show ?thesis
      by (auto simp: Cons.IH map_eq_Cons_conv Cons_eq_map_conv)
  qed
qed

lemma activity_loop_Inl:
  "activity_loop pf acc ns = Inl e \<Longrightarrow> \<exists>n\<in>set ns. extract_activity pf n = Inl e"
  by (induction ns arbitrary: acc) (auto split: sum.splits)

section \<open>The examples evaluated\<close>

lemma float_str_examples:
  "float_str ''-4.50'' = Some (Num (- 9 / 2))"
  "float_str ''-3.00'' = Some (Num (- 3))"
  "float_str ''20.00'' = Some (Num 20)"
  "float_str ''10.00'' = Some (Num 10)"
  "float_str ''N/A'' = None"
  by (simp_all add: float_str_def float_number_def is_float_space_def is_digit_def
        digits_val_def digit_val_def lower_def Let_def fl_def overflow_bound_def
        char_of_eq_iff take_bit_eq_mod)

lemma strip_examples:
  "strip ''  Monday 03 Jun 2024 '' = ''Monday 03 Jun 2024''"
  "strip ''Monday 03 Jun 2024'' = ''Monday 03 Jun 2024''"
  "strip ''Saturday 01 Jun 2024'' = ''Saturday 01 Jun 2024''"
  "strip ''Sometime Last Week'' = ''Sometime Last Week''"
  "strip ''Tuesday 01 Jan 0999'' = ''Tuesday 01 Jan 0999''"
  "strip '' 07:00'' = ''07:00''" "strip ''08:15'' = ''08:15''" "strip ''17:30'' = ''17:30''"
  "strip ''09:00'' = ''09:00''" "strip ''soon'' = ''soon''"
  "strip ''Home'' = ''Home''" "strip ''City'' = ''City''" "strip ''Central'' = ''Central''"
  "strip ''Top up machine'' = ''Top up machine''" "strip '' Top Up '' = ''Top Up''"
  "replace_dollar (strip ''-$4.50'') = ''-4.50''" "replace_dollar (strip ''-$3.00'') = ''-3.00''"
  "replace_dollar (strip ''$20.00'') = ''20.00''" "replace_dollar (strip ''$10.00'') = ''10.00''"
  "replace_dollar (strip ''N/A'') = ''N/A''"
  by (simp_all add: strip_def is_space_def replace_dollar_def)

lemma strptime_time_examples:
  "strptime_time ''07:00'' = Inr (1900, 1, 1, 7, 0, 0, 0)"
  "strptime_time ''08:15'' = Inr (1900, 1, 1, 8, 15, 0, 0)"
  "strptime_time ''17:30'' = Inr (1900, 1, 1, 17, 30, 0, 0)"
  "strptime_time ''09:00'' = Inr (1900, 1, 1, 9, 0, 0, 0)"
  "strptime_time ''soon'' = Inl ValueError"
  by (simp_all add: strptime_time_def match_H_def match_M_def is_digit_def digit_val_def
        datetime_new_def days_in_month_def)

lemma sublist_examples:
  "\<not> sublist ''Top up'' ''Home''" "\<not> sublist ''Top up'' ''City''"
  "sublist ''Top up'' ''Top up machine''"
  "\<not> sublist ''Top up'' ''Top Up''" "\<not> sublist ''Top up'' ''Unknown''"
  by (simp_all add: sublist_code)

lemmas example_evaluations =
  float_str_examples strip_examples strptime_time_examples strptime_time_ok sublist_examples
  strptime_examples strptime_examples2 strftime_examples

lemma scenario_parse: "parse_travel_data float_str scenario_tree = Inr scenario_ledger"
  by (simp add: parse_travel_data_def scenario_tree_def scenario_ledger_def
        extract_activity_def first_text_or_def Let_def list_sort_def sorted_reverse_def
        ordered_dict_def zero_pyfloat_def example_evaluations)

lemma bad_fare_parse: "parse_travel_data float_str bad_fare_tree = Inl ValueError"
  by (simp add: parse_travel_data_def bad_fare_tree_def extract_activity_def first_text_or_def Let_def
        example_evaluations)

lemma bad_time_parse: "parse_travel_data float_str bad_time_tree = Inl ValueError"
  by (simp add: parse_travel_data_def bad_time_tree_def extract_activity_def first_text_or_def Let_def
        list_sort_def example_evaluations)

lemma repeated_date_parse:
  "parse_travel_data float_str repeated_date_tree =
     Inr [(''Monday 03 Jun 2024'',
            [\<lparr>time = ''17:30'', start_point = ''City'', end_point = ''Home'', fare = Num (- 3)\<rparr>])]"
  by (simp add: parse_travel_data_def repeated_date_tree_def extract_activity_def
        first_text_or_def Let_def list_sort_def sorted_reverse_def ordered_dict_def example_evaluations)

lemma old_year_parse:
  "parse_travel_data float_str old_year_tree =
     Inr [(''Tuesday 01 Jan 999'',
            [\<lparr>time = ''08:15'', start_point = ''Home'', end_point = ''City'', fare = Num (- 9 / 2)\<rparr>])]"
  by (simp add: parse_travel_data_def old_year_tree_def extract_activity_def
        first_text_or_def Let_def list_sort_def sorted_reverse_def ordered_dict_def example_evaluations)

lemma exact_top_up_extract:
  "extract_activity float_str exact_top_up_node =
     Inr \<lparr>time = ''09:00'', start_point = ''Top Up'', end_point = ''Central'', fare = Num 10\<rparr>"
  by (simp add: exact_top_up_node_def extract_activity_def first_text_or_def Let_def example_evaluations)

section \<open>Facts about parse_travel_data\<close>

lemma strptime_date_error: "strptime_date s = Inl e \<Longrightarrow> e = ValueError"
  by (cases "match_alt weekday_names s")
    (auto simp: strptime_date_def datetime_new_def split: option.splits prod.splits if_splits bind_splits)

lemma strptime_time_error: "strptime_time s = Inl e \<Longrightarrow> e = ValueError"
  by (cases "match_H s")
    (auto simp: strptime_time_def datetime_new_def split: option.splits prod.splits if_splits bind_splits)

lemma time_key_eq: "(\<lambda>x. strptime_time (time x)) = time_key"
  by (simp add: fun_eq_iff time_key_def)

lemma extract_activity_error: "extract_activity pf n = Inl e \<Longrightarrow> e = ValueError"
  by (auto simp: extract_activity_def Let_def split: list.splits option.splits)

lemma extract_activity_Inr_iff: "(\<exists>a. extract_activity pf n = Inr a) \<longleftrightarrow> fare_ok pf n"
  by (auto simp: extract_activity_def fare_ok_def Let_def split: list.splits option.splits)

lemma extract_activity_fields:
  assumes "extract_activity pf n = Inr a"
  shows "time a = first_text_or (time_texts n) ''00:00''"
    and "start_point a =
      (if sublist ''Top up'' (first_text_or (from_texts n) ''Unknown'') then ''Top Up''
       else first_text_or (from_texts n) ''Unknown'')"
    and "end_point a =
      (if sublist ''Top up'' (first_text_or (from_texts n) ''Unknown'') then ''Opal Travel App''
       else first_text_or (to_texts n) ''Unknown'')"
    and "amount_texts n = [] \<Longrightarrow> fare a = 0"
    and "amount_texts n = t # ts \<Longrightarrow> pf (replace_dollar (strip t)) = Some (fare a)"
  using assms
  by (auto simp: extract_activity_def Let_def split: list.splits option.splits if_splits)

lemma group_activities_Inr:
  assumes "group_activities pf c = Inr s"
  shows "\<exists>raw. map (extract_activity pf) (activity_nodes c) = map Inr raw \<and>
     list_sort time_key raw = Inr s"
proof -
  from assms obtain raw where r: "activity_loop pf [] (activity_nodes c) = Inr raw"
    and s: "list_sort time_key raw = Inr s"
    by (auto simp: group_activities_def time_key_eq split: sum.splits)
  from r have "map (extract_activity pf) (activity_nodes c) = map Inr raw"
    by (simp add: activity_loop_eq)
  with s show ?thesis by blast
qed

lemma group_activities_error: "group_activities pf c = Inl e \<Longrightarrow> e = ValueError"
proof -
  assume a: "group_activities pf c = Inl e"
  show ?thesis
  proof (cases "activity_loop pf [] (activity_nodes c)")
    case (Inl e')
    with a have "e' = e" by (simp add: group_activities_def)
    with activity_loop_Inl [OF Inl] show ?thesis by (auto dest: extract_activity_error)
  next
    case (Inr raw)
    with a have "list_sort (\<lambda>x. strptime_time (time x)) raw = Inl e"
      by (simp add: group_activities_def)
    from list_sort_Inl [OF this] show ?thesis by (auto dest: strptime_time_error)
  qed
qed

lemma group_activities_Inr_iff:
  "(\<exists>s. group_activities pf c = Inr s) \<longleftrightarrow>
     (\<forall>n\<in>set (activity_nodes c). fare_ok pf n \<and> time_ok n)"
proof
  assume "\<exists>s. group_activities pf c = Inr s"
  then obtain s where s: "group_activities pf c = Inr s" ..
  from group_activities_Inr [OF s] obtain raw where
    raw: "map (extract_activity pf) (activity_nodes c) = map Inr raw"
    and srt: "list_sort time_key raw = Inr s" by blast
  from list_sort_Inr(1,3) [OF srt] have keys: "\<forall>x\<in>set raw. \<exists>k. time_key x = Inr k"
    by (metis (no_types, lifting) imageE image_eqI list.set_map)
  show "\<forall>n\<in>set (activity_nodes c). fare_ok pf n \<and> time_ok n"
  proof
    fix n assume n: "n \<in> set (activity_nodes c)"
    then have "extract_activity pf n \<in> set (map Inr raw)"
      unfolding raw [symmetric] by simp
    then obtain a where a: "a \<in> set raw" "extract_activity pf n = Inr a" by auto
    from a(2) have f: "fare_ok pf n" using extract_activity_Inr_iff by blast
    from keys a(1) obtain k where "time_key a = Inr k" by blast
    then have "time_ok n"
      by (simp add: time_ok_def time_key_def extract_activity_fields(1) [OF a(2)])
    with f show "fare_ok pf n \<and> time_ok n" ..
  qed
next
  assume ok: "\<forall>n\<in>set (activity_nodes c). fare_ok pf n \<and> time_ok n"
  define raw where "raw = map (\<lambda>n. projr (extract_activity pf n)) (activity_nodes c)"
  have ex: "extract_activity pf n = Inr (projr (extract_activity pf n))"
    if "n \<in> set (activity_nodes c)" for n
    using ok that extract_activity_Inr_iff [of pf n] by auto
  then have m: "map (extract_activity pf) (activity_nodes c) = map Inr raw"
    by (simp add: raw_def)
  then have al: "activity_loop pf [] (activity_nodes c) = Inr raw"
    by (simp add: activity_loop_eq)
  have "\<forall>x\<in>set raw. \<exists>k. strptime_time (time x) = Inr k"
  proof
    fix x assume "x \<in> set raw"
    then obtain n where n: "n \<in> set (activity_nodes c)" "x = projr (extract_activity pf n)"
      by (auto simp: raw_def)
    from ex [OF n(1)] n(2) have e: "extract_activity pf n = Inr x" by simp
    from ok n(1) have "time_ok n" by blast
    then show "\<exists>k. strptime_time (time x) = Inr k"
      by (auto simp: time_ok_def extract_activity_fields(1) [OF e] split: sum.splits)
  qed
  from list_sort_total [OF this] al show "\<exists>s. group_activities pf c = Inr s"
    by (simp add: group_activities_def)
qed

lemma date_loop_Inr_groups:
  "date_loop pf td cs = Inr td' \<Longrightarrow>
   \<forall>c\<in>set cs. group_date c \<noteq> None \<longrightarrow> (\<exists>s. group_activities pf c = Inr s)"
proof (induction cs arbitrary: td)
  case Nil
  then show ?case by simp
next
  case (Cons c cs)
  then show ?case
    by (auto simp add: date_loop_Cons simp del: date_loop.simps split: option.splits sum.splits)
qed

lemma parse_travel_data_Inr_iff:
  "(\<exists>ledger. parse_travel_data pf tree = Inr ledger) \<longleftrightarrow>
     (\<forall>c\<in>set tree. group_date c \<noteq> None \<longrightarrow>
        (\<forall>n\<in>set (activity_nodes c). fare_ok pf n \<and> time_ok n))"
proof
  assume "\<exists>ledger. parse_travel_data pf tree = Inr ledger"
  then obtain ledger where "parse_travel_data pf tree = Inr ledger" ..
  then obtain td where "date_loop pf [] tree = Inr td" by (rule parse_travel_data_Inr)
  from date_loop_Inr_groups [OF this]
  show "\<forall>c\<in>set tree. group_date c \<noteq> None \<longrightarrow>
        (\<forall>n\<in>set (activity_nodes c). fare_ok pf n \<and> time_ok n)"
    by (simp add: group_activities_Inr_iff)
next
  assume "\<forall>c\<in>set tree. group_date c \<noteq> None \<longrightarrow>
        (\<forall>n\<in>set (activity_nodes c). fare_ok pf n \<and> time_ok n)"
  then have "\<forall>c\<in>set tree. group_date c \<noteq> None \<longrightarrow> (\<exists>s. group_activities pf c = Inr s)"
    by (simp add: group_activities_Inr_iff)
  from date_loop_total [OF this] obtain td where "date_loop pf [] tree = Inr td" by blast
  from parse_travel_data_of_loop [OF this]
  show "\<exists>ledger. parse_travel_data pf tree = Inr ledger" by blast
qed

lemma parse_travel_data_error: "parse_travel_data pf tree = Inl e \<Longrightarrow> e = ValueError"
proof -
  assume a: "parse_travel_data pf tree = Inl e"
  show ?thesis
  proof (cases "date_loop pf [] tree")
    case (Inl e')
    with a have "e' = e" by (simp add: parse_travel_data_Inl)
    with date_loop_Inl [OF Inl] show ?thesis by (auto dest: group_activities_error)
  next
    case (Inr td)
    from parse_travel_data_of_loop [OF this] a show ?thesis by simp
  qed
qed

lemma parse_travel_data_skip:
  "group_date c = None \<Longrightarrow>
   parse_travel_data pf (pre @ c # post) = parse_travel_data pf (pre @ post)"
  by (simp add: parse_travel_data_def date_loop_skip del: date_loop.simps)

lemma ledger_groups:
  assumes "parse_travel_data pf tree = Inr ledger" "(label, acts) \<in> set ledger"
  shows "\<exists>c\<in>set tree. \<exists>d. group_date c = Some d \<and> label = strftime_date d \<and>
     group_activities pf c = Inr acts"
proof -
  from assms(1) obtain td where td: "date_loop pf [] tree = Inr td"
    and l: "ledger = map (\<lambda>d. (strftime_date d, the (map_of td d))) (sorted_reverse (map fst td))"
    by (rule parse_travel_data_Inr)
  from ledger_entry [OF td] assms(2) l obtain d where d: "label = strftime_date d" "(d, acts) \<in> set td"
    by blast
  from date_loop_values [OF td d(2)]
  have "\<exists>c\<in>set tree. group_date c = Some d \<and> group_activities pf c = Inr acts" by simp
  with d(1) show ?thesis by blast
qed

lemma ledger_labels:
  assumes "parse_travel_data pf tree = Inr ledger"
  shows "\<exists>ds. map fst ledger = map strftime_date ds \<and> sorted_wrt (\<lambda>a b. b < a) ds \<and>
     set ds = {d. \<exists>c\<in>set tree. group_date c = Some d}"
proof -
  from assms obtain td where td: "date_loop pf [] tree = Inr td"
    and l: "ledger = map (\<lambda>d. (strftime_date d, the (map_of td d))) (sorted_reverse (map fst td))"
    by (rule parse_travel_data_Inr)
  let ?ds = "sorted_reverse (map fst td)"
  have dist: "distinct (map fst td)" using date_loop_distinct [OF td] by simp
  have "map fst ledger = map strftime_date ?ds" by (simp add: l o_def)
  moreover have "sorted_wrt (\<lambda>a b. b < a) ?ds" using dist by (simp add: sorted_reverse_props)
  moreover have "set ?ds = {d. \<exists>c\<in>set tree. group_date c = Some d}"
    using date_loop_keys [OF td] by (simp add: sorted_reverse_props)
  ultimately show ?thesis by blast
qed

lemma sorted_desc_distinct: "sorted_wrt (\<lambda>a b. b < a) (ds :: 'k::linorder list) \<Longrightarrow> distinct ds"
  by (induction ds) auto

lemma distinct_key_once:
  "distinct (map fst xs) \<Longrightarrow> k \<in> fst ` set xs \<Longrightarrow> length (filter (\<lambda>p. fst p = k) xs) = 1"
  by (induction xs) (auto simp: filter_empty_conv image_iff)

section \<open>Facts about reading the labels back\<close>

lemma match_Y_short: "y < 1000 \<Longrightarrow> match_Y (strftime_Y y) = None"
  by (simp add: match_Y_def strftime_Y_def pad2_def)

lemma strftime_Y_first_not_space: "\<exists>c r. strftime_Y y = c # r \<and> \<not> is_space c"
  by (simp add: strftime_Y_def pad2_def pad4_def digit_char_props)

lemma strptime_short_year:
  assumes "is_date dt" "fst dt < 1000"
  shows "strptime_date (strftime_date dt) = Inl ValueError"
proof -
  obtain y m d H M S us where dt: "dt = (y, m, d, H, M, S, us)"
    by (cases dt) auto
  from assms dt have v: "1 \<le> y" "y < 1000" "1 \<le> m" "m \<le> 12" "1 \<le> d" "d \<le> days_in_month y m"
    by (simp_all add: is_date_def)
  have d31: "d \<le> 31" using v days_in_month_le [of m y] by linarith
  have mlt: "m - 1 < 12" using v by simp
  define W where "W = weekday_names ! weekday dt"
  define B where "B = month_abbrs ! (m - 1)"
  define t3 where "t3 = CHR '' '' # B @ CHR '' '' # strftime_Y y"
  have out: "strftime_date dt = W @ CHR '' '' # pad2 d @ t3"
    by (simp add: strftime_date_def strftime_A_def dt W_def B_def t3_def)
  have s1: "match_alt weekday_names (W @ CHR '' '' # pad2 d @ t3) = Some (weekday dt, CHR '' '' # pad2 d @ t3)"
    unfolding W_def by (rule match_alt_weekday [OF weekday_lt7])
  obtain c r where p2: "pad2 d = c # r" "\<not> is_space c"
    using pad_first_not_space(1) by blast
  have s2: "match_spaces (CHR '' '' # pad2 d @ t3) = Some (pad2 d @ t3)"
    by (rule match_spaces_blank [OF p2])
  have s3: "match_d (pad2 d @ t3) = Some (d, t3)"
    unfolding t3_def by (rule match_d_pad2 [OF v(5) d31])
  obtain c' r' where pb: "B = c' # r'" "\<not> is_space c'"
    using month_first_not_space [OF mlt] unfolding B_def by blast
  have s4: "match_spaces t3 = Some (B @ CHR '' '' # strftime_Y y)"
    unfolding t3_def by (rule match_spaces_blank [OF pb])
  have s5: "match_alt month_abbrs (B @ CHR '' '' # strftime_Y y) = Some (m - 1, CHR '' '' # strftime_Y y)"
    unfolding B_def by (rule match_alt_month [OF mlt])
  obtain c'' r'' where p4: "strftime_Y y = c'' # r''" "\<not> is_space c''"
    using strftime_Y_first_not_space by blast
  have s6: "match_spaces (CHR '' '' # strftime_Y y) = Some (strftime_Y y)"
    using match_spaces_blank [OF p4, of "[]"] by simp
  have s7: "match_Y (strftime_Y y) = None"
    by (rule match_Y_short [OF v(2)])
  show ?thesis
    unfolding out strptime_date_def by (simp add: s1 s2 s3 s4 s5 s6 s7)
qed

lemma totals_loop_Inl:
  "\<exists>p\<in>set items. strptime_date (fst p) = Inl ValueError \<Longrightarrow>
   totals_loop lm acc items = Inl ValueError"
proof (induction items arbitrary: acc)
  case Nil
  then show ?case by simp
next
  case (Cons p items)
  obtain s acts where p: "p = (s, acts)" by (cases p)
  show ?case
  proof (cases "strptime_date s")
    case (Inl e)
    then have "e = ValueError" by (rule strptime_date_error)
    with Inl show ?thesis by (simp add: p)
  next
    case (Inr d)
    with Cons.prems have "\<exists>p\<in>set items. strptime_date (fst p) = Inl ValueError"
      by (auto simp: p)
    from Cons.IH [OF this] Inr show ?thesis by (simp add: p)
  qed
qed

lemma daily_loop_Inl:
  "\<exists>p\<in>set items. strptime_date (fst p) = Inl ValueError \<Longrightarrow>
   daily_loop lm dt items = Inl ValueError"
proof (induction items arbitrary: dt)
  case Nil
  then show ?case by simp
next
  case (Cons p items)
  obtain s acts where p: "p = (s, acts)" by (cases p)
  show ?case
  proof (cases "strptime_date s")
    case (Inl e)
    then have "e = ValueError" by (rule strptime_date_error)
    with Inl show ?thesis by (simp add: p)
  next
    case (Inr d)
    with Cons.prems have "\<exists>p\<in>set items. strptime_date (fst p) = Inl ValueError"
      by (auto simp: p)
    from Cons.IH [OF this] show ?thesis
      unfolding p daily_loop_step [OF Inr] by simp
  qed
qed

lemma ledger_reparse:
  assumes "parse_travel_data pf tree = Inr ledger"
    and "\<forall>c\<in>set tree. \<forall>d. group_date c = Some d \<longrightarrow> 1000 \<le> fst d"
  shows "\<exists>ds. map (\<lambda>p. strptime_date (fst p)) ledger = map Inr ds"
proof -
  from ledger_labels [OF assms(1)] obtain ds where ds: "map fst ledger = map strftime_date ds"
    "set ds = {d. \<exists>c\<in>set tree. group_date c = Some d}" by blast
  have "\<forall>d\<in>set ds. strptime_date (strftime_date d) = Inr d"
  proof
    fix d assume "d \<in> set ds"
    then obtain c where "c \<in> set tree" "group_date c = Some d" using ds(2) by blast
    then have "is_date d" "1000 \<le> fst d" using assms(2) by (blast dest: group_date_is_date)+
    then show "strptime_date (strftime_date d) = Inr d" by (rule strptime_strftime_date)
  qed
  then have "map (\<lambda>d. strptime_date (strftime_date d)) ds = map Inr ds" by simp
  moreover have "map (\<lambda>p. strptime_date (fst p)) ledger = map strptime_date (map fst ledger)"
    by simp
  ultimately have "map (\<lambda>p. strptime_date (fst p)) ledger = map Inr ds"
    unfolding ds(1) by simp
  then show ?thesis ..
qed

lemma ledger_reparse_fails:
  assumes "parse_travel_data pf tree = Inr ledger"
    and "c \<in> set tree" "group_date c = Some d" "fst d < 1000"
  shows "\<exists>p\<in>set ledger. strptime_date (fst p) = Inl ValueError"
proof -
  from ledger_labels [OF assms(1)] obtain ds where ds: "map fst ledger = map strftime_date ds"
    "set ds = {d. \<exists>c\<in>set tree. group_date c = Some d}" by blast
  have "d \<in> set ds" using ds(2) assms(2,3) by blast
  then have "strftime_date d \<in> set (map fst ledger)" unfolding ds(1) by simp
  then obtain p where p: "p \<in> set ledger" "fst p = strftime_date d" by auto
  have "strptime_date (strftime_date d) = Inl ValueError"
    by (rule strptime_short_year [OF group_date_is_date [OF assms(3)] assms(4)])
  then have "strptime_date (fst p) = Inl ValueError" unfolding p(2) .
  then show ?thesis using p(1) by (rule bexI)
qed

section \<open>Facts about the top-up rule\<close>

lemma sublist_dropWhile:
  assumes "p = c # r" "\<not> Q c"
  shows "sublist p (dropWhile Q s) \<longleftrightarrow> sublist p s"
proof (induction s)
  case Nil
  show ?case by simp
next
  case (Cons x xs)
  show ?case
  proof (cases "Q x")
    case True
    then have "\<not> prefix p (x # xs)" using assms by auto
    with True Cons show ?thesis by (simp add: sublist_Cons_right)
  next
    case False
    then show ?thesis by simp
  qed
qed

lemma sublist_strip:
  assumes "p = c # r" "\<not> is_space c" "rev p = c' # r'" "\<not> is_space c'"
  shows "sublist p (strip s) \<longleftrightarrow> sublist p s"
proof -
  have "sublist p (strip s) \<longleftrightarrow> sublist (rev p) (dropWhile is_space (rev (dropWhile is_space s)))"
    unfolding strip_def
    using sublist_rev [of "rev p" "dropWhile is_space (rev (dropWhile is_space s))"] by simp
  also have "\<dots> \<longleftrightarrow> sublist (rev p) (rev (dropWhile is_space s))"
    using assms(3,4) by (rule sublist_dropWhile [where Q = is_space])
  also have "\<dots> \<longleftrightarrow> sublist p (dropWhile is_space s)"
    by (rule sublist_rev)
  also have "\<dots> \<longleftrightarrow> sublist p s"
    using assms(1,2) by (rule sublist_dropWhile [where Q = is_space])
  finally show ?thesis .
qed

lemma top_up_in_raw_text:
  "sublist ''Top up'' (first_text_or texts ''Unknown'') \<longleftrightarrow>
     (case texts of [] \<Rightarrow> False | t # _ \<Rightarrow> sublist ''Top up'' t)"
proof (cases texts)
  case Nil
  then show ?thesis by (simp add: first_text_or_def sublist_code)
next
  case (Cons t ts)
  have "sublist ''Top up'' (strip t) \<longleftrightarrow> sublist ''Top up'' t"
    by (rule sublist_strip [of _ "CHR ''T''" "''op up''" "CHR ''p''" "''u poT''"])
      (simp_all add: is_space_def)
  with Cons show ?thesis by (simp add: first_text_or_def)
qed

section \<open>Properties\<close>

text \<open>
  C1, as the code has it.  The floor is the literal 50 of line 266, not an input.  Whenever
  \<open>50 - (balance - total_fare_charged)\<close> is a number or an infinity, the top-up amount
  that main computes is \<open>max(0, 50 - (balance - total_fare_charged))\<close> and it is not
  negative.  That value is NaN exactly when the balance or the total is NaN or both are the
  same infinity; then the test \<open>topup_needed < 0\<close> is false, the amount stays NaN, and it
  is neither \<open>max(0, NaN)\<close>, which is 0, nor at least 0.  Both sides of the equation
  hold the same computed difference, so the rounding of that difference plays no part.
\<close>

theorem topup_needed_max:
  "(Num 50 - (b - f) = NaN \<longleftrightarrow>
      b = NaN \<or> f = NaN \<or> (b = PosInf \<and> f = PosInf) \<or> (b = NegInf \<and> f = NegInf)) \<and>
   (Num 50 - (b - f) \<noteq> NaN \<longrightarrow>
      topup_needed b f = py_max 0 (Num 50 - (b - f)) \<and> 0 \<le> topup_needed b f) \<and>
   (Num 50 - (b - f) = NaN \<longrightarrow>
      topup_needed b f = NaN \<and> py_max 0 (Num 50 - (b - f)) = 0 \<and> \<not> 0 \<le> topup_needed b f)"
  by (cases b; cases f)
    (auto simp: topup_needed_def py_max_def Let_def minus_pyfloat_def less_pyfloat_def
       less_eq_pyfloat_def zero_pyfloat_def fl_def)

theorem topup_needed_max_witness:
  "topup_needed (Num 12) (Num (- 9 / 2)) = Num (67 / 2) \<and>
   topup_needed (Num 80) (Num (- 9 / 2)) = Num 0 \<and>
   topup_needed (Num 12) PosInf = PosInf"
  using topup_needed_max [of "Num 12" "Num (- 9 / 2)"] topup_needed_max [of "Num 80" "Num (- 9 / 2)"]
    topup_needed_max [of "Num 12" PosInf]
  by (simp add: py_max_def minus_pyfloat_def less_pyfloat_def zero_pyfloat_def fl_def
        overflow_bound_def)

text \<open>
  C1 as the specification words it fails: the amount text \<open>$NaN\<close> of a fare is accepted
  by \<open>float\<close> once stripped of the dollar sign, the weekly total of the fares is then NaN,
  and with a balance of 12 the amount computed is NaN, which is not \<open>max(0, ...)\<close> and
  not at least 0.
\<close>

theorem topup_needed_nan:
  "float_str (replace_dollar (strip ''$NaN'')) = Some NaN \<and>
   calculate_totals [(''Monday 03 Jun 2024'',
       [\<lparr>time = ''08:15'', start_point = ''Home'', end_point = ''City'', fare = NaN\<rparr>])]
     (2024, 6, 3, 0, 0, 0, 0) = Inr (Num 0, NaN) \<and>
   topup_needed (Num 12) NaN = NaN \<and>
   topup_needed (Num 12) NaN \<noteq> py_max 0 (Num 50 - (Num 12 - NaN)) \<and>
   \<not> 0 \<le> topup_needed (Num 12) NaN"
  by (simp add: float_str_def float_number_def strip_def replace_dollar_def is_space_def
        is_float_space_def is_digit_def lower_def Let_def calculate_totals_def
        strptime_examples topup_needed_def py_max_def minus_pyfloat_def plus_pyfloat_def
        less_pyfloat_def less_eq_pyfloat_def zero_pyfloat_def char_of_eq_iff take_bit_eq_mod)

text \<open>
  C2, as the code has it.  \<open>parse_travel_data\<close> returns a ledger exactly when, in every
  group whose date label parses, every activity node has an amount text that \<open>float\<close>
  accepts (or none) and a time text of the form \<open>%H:%M\<close> (or none); otherwise it raises,
  and what it raises is \<open>ValueError\<close>.  A group whose date label is missing or does not
  parse has no effect at all, whatever its activities are.  An absent field of an activity
  gets its default: time \<open>"00:00"\<close>, origin \<open>"Unknown"\<close>, destination \<open>"Unknown"\<close>
  (unless the origin contains \<open>"Top up"\<close>), fare 0.
\<close>

theorem parse_travel_data_faults:
  "((\<exists>ledger. parse_travel_data py_float tree = Inr ledger) \<longleftrightarrow>
      (\<forall>c\<in>set tree. group_date c \<noteq> None \<longrightarrow>
         (\<forall>n\<in>set (activity_nodes c). fare_ok py_float n \<and> time_ok n))) \<and>
   (\<forall>e. parse_travel_data py_float tree = Inl e \<longrightarrow> e = ValueError) \<and>
   (group_date c = None \<longrightarrow>
      parse_travel_data py_float (pre @ c # post) = parse_travel_data py_float (pre @ post)) \<and>
   (extract_activity py_float n = Inr a \<longrightarrow>
      (time_texts n = [] \<longrightarrow> time a = ''00:00'') \<and>
      (from_texts n = [] \<longrightarrow> start_point a = ''Unknown'') \<and>
      (to_texts n = [] \<and> \<not> sublist ''Top up'' (first_text_or (from_texts n) ''Unknown'')
         \<longrightarrow> end_point a = ''Unknown'') \<and>
      (amount_texts n = [] \<longrightarrow> fare a = 0))"
proof (intro conjI allI impI)
  show "(\<exists>ledger. parse_travel_data py_float tree = Inr ledger) \<longleftrightarrow>
      (\<forall>c\<in>set tree. group_date c \<noteq> None \<longrightarrow>
         (\<forall>n\<in>set (activity_nodes c). fare_ok py_float n \<and> time_ok n))"
    by (rule parse_travel_data_Inr_iff)
next
  fix e assume "parse_travel_data py_float tree = Inl e"
  then show "e = ValueError" by (rule parse_travel_data_error)
next
  assume "group_date c = None"
  then show "parse_travel_data py_float (pre @ c # post) = parse_travel_data py_float (pre @ post)"
    by (rule parse_travel_data_skip)
next
  assume e: "extract_activity py_float n = Inr a" and "time_texts n = []"
  then show "time a = ''00:00''"
    by (simp add: extract_activity_fields(1) [OF e] first_text_or_def)
next
  assume e: "extract_activity py_float n = Inr a" and "from_texts n = []"
  then show "start_point a = ''Unknown''"
    by (simp add: extract_activity_fields(2) [OF e] first_text_or_def sublist_code)
next
  assume e: "extract_activity py_float n = Inr a"
    and "to_texts n = [] \<and> \<not> sublist ''Top up'' (first_text_or (from_texts n) ''Unknown'')"
  then show "end_point a = ''Unknown''"
    by (simp add: extract_activity_fields(3) [OF e] first_text_or_def)
next
  assume e: "extract_activity py_float n = Inr a" and "amount_texts n = []"
  then show "fare a = 0" by (simp add: extract_activity_fields(4) [OF e])
qed

theorem parse_travel_data_faults_witness:
  "parse_travel_data float_str scenario_tree = Inr scenario_ledger \<and>
   group_date (scenario_tree ! 1) = None \<and>
   parse_travel_data float_str scenario_tree =
     parse_travel_data float_str [scenario_tree ! 0, scenario_tree ! 2] \<and>
   extract_activity float_str
       \<lparr>time_texts = [], from_texts = [], to_texts = [], amount_texts = []\<rparr> =
     Inr \<lparr>time = ''00:00'', start_point = ''Unknown'', end_point = ''Unknown'', fare = Num 0\<rparr> \<and>
   \<not> fare_ok float_str (hd (activity_nodes (hd bad_fare_tree))) \<and>
   parse_travel_data float_str bad_fare_tree = Inl ValueError"
proof -
  have g: "group_date (scenario_tree ! 1) = None"
    by (simp add: scenario_tree_def group_date_def example_evaluations)
  have t: "scenario_tree = [scenario_tree ! 0] @ scenario_tree ! 1 # [scenario_tree ! 2]"
    by (simp add: scenario_tree_def)
  have x: "extract_activity float_str
       \<lparr>time_texts = [], from_texts = [], to_texts = [], amount_texts = []\<rparr> =
     Inr \<lparr>time = ''00:00'', start_point = ''Unknown'', end_point = ''Unknown'', fare = Num 0\<rparr>"
    by (simp add: extract_activity_def first_text_or_def Let_def example_evaluations
          zero_pyfloat_def)
  have nf: "\<not> fare_ok float_str (hd (activity_nodes (hd bad_fare_tree)))"
    by (simp add: bad_fare_tree_def fare_ok_def example_evaluations)
  have i: "hd bad_fare_tree \<in> set bad_fare_tree" "group_date (hd bad_fare_tree) \<noteq> None"
    "hd (activity_nodes (hd bad_fare_tree)) \<in> set (activity_nodes (hd bad_fare_tree))"
    by (simp_all add: bad_fare_tree_def group_date_def example_evaluations)
  note f = parse_travel_data_faults [of float_str scenario_tree "scenario_tree ! 1"
      "[scenario_tree ! 0]" "[scenario_tree ! 2]"
      "\<lparr>time_texts = [], from_texts = [], to_texts = [], amount_texts = []\<rparr>"
      "\<lparr>time = ''00:00'', start_point = ''Unknown'', end_point = ''Unknown'', fare = Num 0\<rparr>"]
  note b = parse_travel_data_faults [of float_str bad_fare_tree]
  from f g have s: "parse_travel_data float_str ([scenario_tree ! 0] @ scenario_tree ! 1 # [scenario_tree ! 2]) =
     parse_travel_data float_str ([scenario_tree ! 0] @ [scenario_tree ! 2])"
    by blast
  from b nf i have "\<not> (\<exists>ledger. parse_travel_data float_str bad_fare_tree = Inr ledger)"
    by blast
  moreover from b have "\<forall>e. parse_travel_data float_str bad_fare_tree = Inl e \<longrightarrow> e = ValueError"
    by blast
  ultimately have bad: "parse_travel_data float_str bad_fare_tree = Inl ValueError"
    by (cases "parse_travel_data float_str bad_fare_tree") auto
  from s t have "parse_travel_data float_str scenario_tree =
     parse_travel_data float_str [scenario_tree ! 0, scenario_tree ! 2]" by simp
  with scenario_parse g x nf bad show ?thesis by simp
qed

text \<open>
  C2 as the specification words it fails: in a group with a good date label, an amount
  text that is not a number (\<open>N/A\<close>) makes \<open>float\<close> raise \<open>ValueError\<close> at line 131,
  and a time text that is not a time (\<open>soon\<close>) makes the sort key of line 146 raise
  \<open>ValueError\<close>; neither is replaced by a default.
\<close>

theorem parse_travel_data_raises:
  "float_str (replace_dollar (strip ''N/A'')) = None \<and>
   parse_travel_data float_str bad_fare_tree = Inl ValueError \<and>
   strptime_time (strip ''soon'') = Inl ValueError \<and>
   parse_travel_data float_str bad_time_tree = Inl ValueError"
  by (simp add: bad_fare_parse bad_time_parse example_evaluations)

text \<open>
  C3: for every ledger whose labels parse (to the dates \<open>ds\<close>) and every cutoff,
  \<open>calculate_totals\<close> takes exactly the activities of the days with a date on or after
  the cutoff (\<open>week_activities\<close>, the other days having a date before it); the fares of
  those whose stored origin is \<open>"Top Up"\<close> are accumulated into \<open>total_top_up\<close>
  and the fares of all others, with the sign they were stored with, into
  \<open>total_fare_charged\<close>, both from 0 and in iteration order.
\<close>

theorem calculate_totals_week:
  assumes "map (\<lambda>p. strptime_date (fst p)) travel_dict = map Inr ds"
  shows "calculate_totals travel_dict last_monday =
     Inr (accumulated 0 (map fare (filter is_top_up
            (week_activities last_monday (zip ds (map snd travel_dict))))),
          accumulated 0 (map fare (filter (\<lambda>a. \<not> is_top_up a)
            (week_activities last_monday (zip ds (map snd travel_dict))))))"
  unfolding calculate_totals_def by (rule totals_loop_eq [OF assms])

theorem calculate_totals_week_witness:
  "calculate_totals
     [(''Monday 03 Jun 2024'',
        [\<lparr>time = ''07:00'', start_point = ''Top Up'', end_point = ''Opal Travel App'', fare = 20\<rparr>,
         \<lparr>time = ''08:15'', start_point = ''Home'', end_point = ''City'', fare = - 9 / 2\<rparr>]),
      (''Saturday 01 Jun 2024'',
        [\<lparr>time = ''10:00'', start_point = ''Home'', end_point = ''Beach'', fare = - 10\<rparr>])]
     (2024, 6, 3, 0, 0, 0, 0)
   = Inr (20, - 9 / 2 :: real)"
  using calculate_totals_week [of
     "[(''Monday 03 Jun 2024'',
        [\<lparr>time = ''07:00'', start_point = ''Top Up'', end_point = ''Opal Travel App'', fare = 20\<rparr>,
         \<lparr>time = ''08:15'', start_point = ''Home'', end_point = ''City'', fare = - 9 / 2 :: real\<rparr>]),
      (''Saturday 01 Jun 2024'',
        [\<lparr>time = ''10:00'', start_point = ''Home'', end_point = ''Beach'', fare = - 10\<rparr>])]"
     "[(2024, 6, 3, 0, 0, 0, 0), (2024, 6, 1, 0, 0, 0, 0)]" "(2024, 6, 3, 0, 0, 0, 0)"]
  by (simp add: strptime_examples week_activities_def accumulated_def is_top_up_def)

text \<open>
  C4: for every ledger whose labels parse (to the dates \<open>ds\<close>) and every cutoff,
  \<open>get_daily_totals\<close> returns a dictionary that has an entry for a weekday name exactly
  when some day on or after the cutoff has that name; over the activities of those days
  (the same date filter as the weekly totals), in iteration order, the \<open>topup\<close>
  accumulator is the sum from 0 of the fares, as they are, of the activities whose stored
  origin is \<open>"Top Up"\<close>, and the \<open>fares\<close> accumulator is the sum from 0 of the
  absolute values of the fares of all other activities.
\<close>

theorem get_daily_totals_weekdays:
  assumes "map (\<lambda>p. strptime_date (fst p)) travel_dict = map Inr ds"
  shows "\<exists>daily_totals. get_daily_totals travel_dict last_monday = Inr daily_totals \<and>
     (\<forall>wd. map_of daily_totals wd =
        (if \<exists>p\<in>set (zip ds (map snd travel_dict)). last_monday \<le> fst p \<and> strftime_A (fst p) = wd
         then Some
           (accumulated 0 (map fare (filter is_top_up
              (weekday_activities last_monday wd (zip ds (map snd travel_dict))))),
            accumulated 0 (map (\<lambda>a. abs (fare a)) (filter (\<lambda>a. \<not> is_top_up a)
              (weekday_activities last_monday wd (zip ds (map snd travel_dict))))))
         else None))"
proof -
  from daily_loop_eq [OF assms, of last_monday "[]"] obtain dt' where
    r: "daily_loop last_monday [] travel_dict = Inr dt'" and
    m: "\<And>w. map_of dt' w =
        (if \<exists>p\<in>set (zip ds (map snd travel_dict)). last_monday \<le> fst p \<and> strftime_A (fst p) = w
         then Some (daily_activities (case map_of [] w of None \<Rightarrow> (0, 0) | Some acc \<Rightarrow> acc)
                      (weekday_activities last_monday w (zip ds (map snd travel_dict))))
         else map_of [] w)"
    by blast
  show ?thesis
  proof (intro exI conjI allI)
    show "get_daily_totals travel_dict last_monday = Inr dt'"
      by (simp add: get_daily_totals_def r)
    fix wd
    show "map_of dt' wd =
        (if \<exists>p\<in>set (zip ds (map snd travel_dict)). last_monday \<le> fst p \<and> strftime_A (fst p) = wd
         then Some
           (accumulated 0 (map fare (filter is_top_up
              (weekday_activities last_monday wd (zip ds (map snd travel_dict))))),
            accumulated 0 (map (\<lambda>a. abs (fare a)) (filter (\<lambda>a. \<not> is_top_up a)
              (weekday_activities last_monday wd (zip ds (map snd travel_dict))))))
         else None)"
      unfolding m [of wd] by (simp add: daily_activities_eq)
  qed
qed

theorem get_daily_totals_weekdays_witness:
  "\<exists>daily_totals. get_daily_totals scenario_ledger (2024, 6, 3, 0, 0, 0, 0) = Inr daily_totals \<and>
     map_of daily_totals ''Monday'' = Some (Num 20, Num (9 / 2)) \<and>
     map_of daily_totals ''Saturday'' = None"
proof -
  have p: "map (\<lambda>p. strptime_date (fst p)) scenario_ledger =
      map Inr [(2024, 6, 3, 0, 0, 0, 0), (2024, 6, 1, 0, 0, 0, 0)]"
    by (simp add: scenario_ledger_def strptime_examples)
  from get_daily_totals_weekdays [OF p, of "(2024, 6, 3, 0, 0, 0, 0)"] obtain dt where
    r: "get_daily_totals scenario_ledger (2024, 6, 3, 0, 0, 0, 0) = Inr dt" and
    m: "\<And>wd. map_of dt wd =
        (if \<exists>p\<in>set (zip [(2024, 6, 3, 0, 0, 0, 0), (2024, 6, 1, 0, 0, 0, 0)] (map snd scenario_ledger)).
               (2024, 6, 3, 0, 0, 0, 0) \<le> fst p \<and> strftime_A (fst p) = wd
         then Some
           (accumulated 0 (map fare (filter is_top_up
              (weekday_activities (2024, 6, 3, 0, 0, 0, 0) wd
                 (zip [(2024, 6, 3, 0, 0, 0, 0), (2024, 6, 1, 0, 0, 0, 0)] (map snd scenario_ledger))))),
            accumulated 0 (map (\<lambda>a. abs (fare a)) (filter (\<lambda>a. \<not> is_top_up a)
              (weekday_activities (2024, 6, 3, 0, 0, 0, 0) wd
                 (zip [(2024, 6, 3, 0, 0, 0, 0), (2024, 6, 1, 0, 0, 0, 0)] (map snd scenario_ledger))))))
         else None)"
    by blast
  have "map_of dt ''Monday'' = Some (Num 20, Num (9 / 2))"
    unfolding m [of "''Monday''"]
    by (simp add: scenario_ledger_def strftime_examples weekday_activities_def accumulated_def
          is_top_up_def zero_pyfloat_def plus_pyfloat_def abs_pyfloat_def fl_def overflow_bound_def)
  moreover have "map_of dt ''Saturday'' = None"
    unfolding m [of "''Saturday''"]
    by (simp add: scenario_ledger_def strftime_examples)
  ultimately show ?thesis using r by blast
qed

text \<open>
  C5: every activity of every day of the ledger that \<open>parse_travel_data\<close> returns was
  extracted from an activity node of the document, and if that node has an origin text and
  the text, as it stands in the document, contains \<open>"Top up"\<close>, the stored origin is
  \<open>"Top Up"\<close> and the stored destination \<open>"Opal Travel App"\<close> whatever the
  destination text was; otherwise the stored origin and destination are the extracted
  ones (the stripped text, or \<open>"Unknown"\<close> when there is none).
\<close>

theorem ledger_top_up_normalised:
  assumes "parse_travel_data py_float tree = Inr ledger"
    and "(label, acts) \<in> set ledger" and "a \<in> set acts"
  shows "\<exists>c\<in>set tree. \<exists>n\<in>set (activity_nodes c). extract_activity py_float n = Inr a \<and>
     (if (case from_texts n of [] \<Rightarrow> False | t # _ \<Rightarrow> sublist ''Top up'' t)
      then start_point a = ''Top Up'' \<and> end_point a = ''Opal Travel App''
      else start_point a = first_text_or (from_texts n) ''Unknown'' \<and>
           end_point a = first_text_or (to_texts n) ''Unknown'')"
proof -
  from ledger_groups [OF assms(1,2)] obtain c where c: "c \<in> set tree"
    and g: "group_activities py_float c = Inr acts" by blast
  from group_activities_Inr [OF g] obtain raw where
    raw: "map (extract_activity py_float) (activity_nodes c) = map Inr raw"
    and srt: "list_sort time_key raw = Inr acts" by blast
  from list_sort_Inr(3) [OF srt] assms(3) have "a \<in> set raw" by simp
  then have "Inr a \<in> set (map (extract_activity py_float) (activity_nodes c))"
    unfolding raw by simp
  then obtain n where n: "n \<in> set (activity_nodes c)" "extract_activity py_float n = Inr a"
    by auto
  from extract_activity_fields(2,3) [OF n(2)]
  have "if sublist ''Top up'' (first_text_or (from_texts n) ''Unknown'')
      then start_point a = ''Top Up'' \<and> end_point a = ''Opal Travel App''
      else start_point a = first_text_or (from_texts n) ''Unknown'' \<and>
           end_point a = first_text_or (to_texts n) ''Unknown''"
    by simp
  then have "if (case from_texts n of [] \<Rightarrow> False | t # _ \<Rightarrow> sublist ''Top up'' t)
      then start_point a = ''Top Up'' \<and> end_point a = ''Opal Travel App''
      else start_point a = first_text_or (from_texts n) ''Unknown'' \<and>
           end_point a = first_text_or (to_texts n) ''Unknown''"
    unfolding top_up_in_raw_text .
  with c n show ?thesis by blast
qed

theorem ledger_top_up_normalised_witness:
  "\<exists>c\<in>set scenario_tree. \<exists>n\<in>set (activity_nodes c).
     extract_activity float_str n =
       Inr \<lparr>time = ''07:00'', start_point = ''Top Up'', end_point = ''Opal Travel App'',
            fare = Num 20\<rparr> \<and>
     sublist ''Top up'' (first_text_or (from_texts n) ''Unknown'') \<and>
     first_text_or (to_texts n) ''Unknown'' = ''Unknown''"
proof -
  from ledger_top_up_normalised [OF scenario_parse,
      of "''Monday 03 Jun 2024''"
         "[\<lparr>time = ''07:00'', start_point = ''Top Up'', end_point = ''Opal Travel App'',
             fare = Num 20\<rparr>,
           \<lparr>time = ''08:15'', start_point = ''Home'', end_point = ''City'', fare = Num (- 9 / 2)\<rparr>]"
         "\<lparr>time = ''07:00'', start_point = ''Top Up'', end_point = ''Opal Travel App'',
            fare = Num 20\<rparr>"]
  obtain c n where "c \<in> set scenario_tree" "n \<in> set (activity_nodes c)"
    "extract_activity float_str n =
       Inr \<lparr>time = ''07:00'', start_point = ''Top Up'', end_point = ''Opal Travel App'',
            fare = Num 20\<rparr>"
    by (auto simp: scenario_ledger_def)
  then show ?thesis
    by (auto simp: scenario_tree_def extract_activity_def first_text_or_def Let_def
          example_evaluations zero_pyfloat_def)
qed

text \<open>
  C6, as the code behaves where the C library writes \<open>%Y\<close> without leading zeros
  (glibc).  For a date whose year is at least 1000, formatting it with
  \<open>"%A %d %b %Y"\<close> and parsing the label with the same format gives the date back; for a
  date whose year is below 1000 the label has fewer than four year digits and parsing it
  raises \<open>ValueError\<close>.  Consequently, for a ledger that \<open>parse_travel_data\<close>
  returned, both aggregations succeed when every dated group of the document has a year of
  at least 1000, and both raise \<open>ValueError\<close> when some dated group has a year below
  1000.
\<close>

theorem label_round_trip:
  "(is_date d \<and> 1000 \<le> fst d \<longrightarrow> strptime_date (strftime_date d) = Inr d) \<and>
   (is_date d \<and> fst d < 1000 \<longrightarrow> strptime_date (strftime_date d) = Inl ValueError) \<and>
   (parse_travel_data py_float tree = Inr ledger \<and>
      (\<forall>c\<in>set tree. \<forall>d'. group_date c = Some d' \<longrightarrow> 1000 \<le> fst d') \<longrightarrow>
        (\<exists>t. calculate_totals ledger last_monday = Inr t) \<and>
        (\<exists>dt. get_daily_totals ledger last_monday = Inr dt)) \<and>
   (parse_travel_data py_float tree = Inr ledger \<and>
      (\<exists>c\<in>set tree. \<exists>d'. group_date c = Some d' \<and> fst d' < 1000) \<longrightarrow>
        calculate_totals ledger last_monday = Inl ValueError \<and>
        get_daily_totals ledger last_monday = Inl ValueError)"
proof (intro conjI impI)
  assume "is_date d \<and> 1000 \<le> fst d"
  then show "strptime_date (strftime_date d) = Inr d" by (simp add: strptime_strftime_date)
next
  assume "is_date d \<and> fst d < 1000"
  then show "strptime_date (strftime_date d) = Inl ValueError" by (simp add: strptime_short_year)
next
  assume a: "parse_travel_data py_float tree = Inr ledger \<and>
      (\<forall>c\<in>set tree. \<forall>d'. group_date c = Some d' \<longrightarrow> 1000 \<le> fst d')"
  then obtain ds where ds: "map (\<lambda>p. strptime_date (fst p)) ledger = map Inr ds"
    using ledger_reparse by blast
  show "\<exists>t. calculate_totals ledger last_monday = Inr t"
    unfolding calculate_totals_def using totals_loop_eq [OF ds] by blast
  show "\<exists>dt. get_daily_totals ledger last_monday = Inr dt"
    unfolding get_daily_totals_def using daily_loop_eq [OF ds] by blast
next
  assume a: "parse_travel_data py_float tree = Inr ledger \<and>
      (\<exists>c\<in>set tree. \<exists>d'. group_date c = Some d' \<and> fst d' < 1000)"
  then have f: "\<exists>p\<in>set ledger. strptime_date (fst p) = Inl ValueError"
    using ledger_reparse_fails by blast
  show "calculate_totals ledger last_monday = Inl ValueError"
    unfolding calculate_totals_def by (rule totals_loop_Inl [OF f])
  show "get_daily_totals ledger last_monday = Inl ValueError"
    unfolding get_daily_totals_def by (rule daily_loop_Inl [OF f])
qed

theorem label_round_trip_witness:
  "strptime_date (strftime_date (2024, 6, 3, 0, 0, 0, 0)) = Inr (2024, 6, 3, 0, 0, 0, 0) \<and>
   strptime_date (strftime_date (999, 1, 1, 0, 0, 0, 0)) = Inl ValueError \<and>
   (\<exists>t. calculate_totals scenario_ledger (2024, 6, 3, 0, 0, 0, 0) = Inr t) \<and>
   (\<exists>dt. get_daily_totals scenario_ledger (2024, 6, 3, 0, 0, 0, 0) = Inr dt) \<and>
   calculate_totals
     [(''Tuesday 01 Jan 999'',
        [\<lparr>time = ''08:15'', start_point = ''Home'', end_point = ''City'', fare = Num (- 9 / 2)\<rparr>])]
     (2024, 6, 3, 0, 0, 0, 0) = Inl ValueError"
  using label_round_trip [of "(2024, 6, 3, 0, 0, 0, 0)" float_str scenario_tree scenario_ledger
      "(2024, 6, 3, 0, 0, 0, 0)"]
    label_round_trip [of "(999, 1, 1, 0, 0, 0, 0)" float_str old_year_tree
      "[(''Tuesday 01 Jan 999'',
        [\<lparr>time = ''08:15'', start_point = ''Home'', end_point = ''City'', fare = Num (- 9 / 2)\<rparr>])]"
      "(2024, 6, 3, 0, 0, 0, 0)"]
    scenario_parse old_year_parse
  by (simp add: is_date_def days_in_month_def scenario_tree_def old_year_tree_def group_date_def
        example_evaluations)

text \<open>
  C6 as the specification words it fails on 1 January 999, a valid date: its label is
  \<open>Tuesday 01 Jan 999\<close>, which \<open>strptime\<close> rejects.  A document whose only group is
  labelled \<open>Tuesday 01 Jan 0999\<close> is parsed into a ledger with that key, and
  \<open>calculate_totals\<close> raises \<open>ValueError\<close> on this ledger.
\<close>

theorem old_year_label_rejected:
  "is_date (999, 1, 1, 0, 0, 0, 0) \<and>
   strftime_date (999, 1, 1, 0, 0, 0, 0) = ''Tuesday 01 Jan 999'' \<and>
   strptime_date (strftime_date (999, 1, 1, 0, 0, 0, 0)) = Inl ValueError \<and>
   parse_travel_data float_str old_year_tree =
     Inr [(''Tuesday 01 Jan 999'',
           [\<lparr>time = ''08:15'', start_point = ''Home'', end_point = ''City'',
              fare = Num (- 9 / 2)\<rparr>])] \<and>
   calculate_totals
     [(''Tuesday 01 Jan 999'',
       [\<lparr>time = ''08:15'', start_point = ''Home'', end_point = ''City'', fare = Num (- 9 / 2)\<rparr>])]
     (2024, 6, 3, 0, 0, 0, 0) = Inl ValueError"
  by (simp add: is_date_def days_in_month_def old_year_parse calculate_totals_def
        example_evaluations)

text \<open>
  C7: the keys of the ledger that \<open>parse_travel_data\<close> returns are, in iteration
  order, the labels of a strictly descending list of dates, and these dates are exactly
  the dates of the dated groups of the document.  So of two distinct dates of the ledger
  the later one comes first.
\<close>

theorem ledger_dates_descending:
  assumes "parse_travel_data py_float tree = Inr ledger"
  shows "\<exists>ds. map fst ledger = map strftime_date ds \<and> sorted_wrt (\<lambda>a b. b < a) ds \<and>
     set ds = {d. \<exists>c\<in>set tree. group_date c = Some d}"
  by (rule ledger_labels [OF assms])

theorem ledger_dates_descending_witness:
  "\<exists>ds. [''Monday 03 Jun 2024'', ''Saturday 01 Jun 2024''] = map strftime_date ds \<and>
     sorted_wrt (\<lambda>a b. b < a) ds \<and>
     set ds = {d. \<exists>c\<in>set scenario_tree. group_date c = Some d}"
  using ledger_dates_descending [OF scenario_parse] by (simp add: scenario_ledger_def)

text \<open>
  C8: every day of the ledger that \<open>parse_travel_data\<close> returns holds the activities
  extracted from the nodes of one group of the document (\<open>raw\<close>, in document order),
  rearranged so that the times of day, read with \<open>"%H:%M"\<close>, are non-decreasing, and
  so that the activities with any given time appear in the order they have in \<open>raw\<close>.
\<close>

theorem ledger_day_sorted_stable:
  assumes "parse_travel_data py_float tree = Inr ledger"
    and "(label, acts) \<in> set ledger"
  shows "\<exists>c\<in>set tree. \<exists>raw ks.
     map (extract_activity py_float) (activity_nodes c) = map Inr raw \<and>
     map time_key acts = map Inr ks \<and> sorted ks \<and>
     (\<forall>k. filter (\<lambda>x. time_key x = Inr k) acts = filter (\<lambda>x. time_key x = Inr k) raw)"
proof -
  from ledger_groups [OF assms(1,2)] obtain c where c: "c \<in> set tree"
    and g: "group_activities py_float c = Inr acts" by blast
  from group_activities_Inr [OF g] obtain raw where
    raw: "map (extract_activity py_float) (activity_nodes c) = map Inr raw"
    and srt: "list_sort time_key raw = Inr acts" by blast
  from list_sort_Inr(1) [OF srt] obtain ks where ks: "map time_key acts = map Inr ks" "sorted ks"
    by blast
  have "\<forall>k. filter (\<lambda>x. time_key x = Inr k) acts = filter (\<lambda>x. time_key x = Inr k) raw"
    using list_sort_Inr(2) [OF srt] by blast
  with c raw ks show ?thesis by blast
qed

theorem ledger_day_sorted_stable_witness:
  "\<exists>c\<in>set scenario_tree. \<exists>raw ks.
     map (extract_activity float_str) (activity_nodes c) = map Inr raw \<and>
     map time_key
       [\<lparr>time = ''07:00'', start_point = ''Top Up'', end_point = ''Opal Travel App'',
          fare = Num 20\<rparr>,
        \<lparr>time = ''08:15'', start_point = ''Home'', end_point = ''City'', fare = Num (- 9 / 2)\<rparr>]
       = map Inr ks \<and> sorted ks \<and>
     (\<forall>k. filter (\<lambda>x. time_key x = Inr k)
            [\<lparr>time = ''07:00'', start_point = ''Top Up'', end_point = ''Opal Travel App'',
               fare = Num 20\<rparr>,
             \<lparr>time = ''08:15'', start_point = ''Home'', end_point = ''City'',
               fare = Num (- 9 / 2)\<rparr>]
          = filter (\<lambda>x. time_key x = Inr k) raw)"
proof -
  have "(''Monday 03 Jun 2024'',
         [\<lparr>time = ''07:00'', start_point = ''Top Up'', end_point = ''Opal Travel App'',
             fare = Num 20\<rparr>,
          \<lparr>time = ''08:15'', start_point = ''Home'', end_point = ''City'',
             fare = Num (- 9 / 2)\<rparr>]) \<in> set scenario_ledger"
    by (simp add: scenario_ledger_def)
  then show ?thesis by (rule ledger_day_sorted_stable [OF scenario_parse])
qed

text \<open>
  C9: when a dated group of the document is the last one with its date (no later group
  has the same date), the ledger has exactly one entry under the label of that date, and
  its list is the sorted activity list of that group alone, whatever groups with the same
  date come before it.
\<close>

theorem repeated_date_last_wins:
  assumes "parse_travel_data py_float (pre @ c # post) = Inr ledger"
    and "group_date c = Some d"
    and "\<forall>c'\<in>set post. group_date c' \<noteq> Some d"
  shows "\<exists>s. group_activities py_float c = Inr s \<and> map_of ledger (strftime_date d) = Some s \<and>
     length (filter (\<lambda>p. fst p = strftime_date d) ledger) = 1"
proof -
  from assms(1) obtain td where td: "date_loop py_float [] (pre @ c # post) = Inr td"
    and l: "ledger = map (\<lambda>d. (strftime_date d, the (map_of td d))) (sorted_reverse (map fst td))"
    by (rule parse_travel_data_Inr)
  from date_loop_last [OF td assms(2,3)] obtain s where
    s: "group_activities py_float c = Inr s" "map_of td d = Some s" by blast
  have isd: "is_date d" by (rule group_date_is_date [OF assms(2)])
  have m: "map_of ledger (strftime_date d) = Some s"
    unfolding l ledger_lookup [OF td isd] by (rule s(2))
  from ledger_labels [OF assms(1)] obtain ds where ds: "map fst ledger = map strftime_date ds"
    "sorted_wrt (\<lambda>a b. b < a) ds" "set ds = {d. \<exists>c\<in>set (pre @ c # post). group_date c = Some d}"
    by blast
  have dd: "distinct ds" by (rule sorted_desc_distinct [OF ds(2)])
  have "\<forall>x\<in>set ds. is_date x" using ds(3) by (auto dest: group_date_is_date)
  then have "inj_on strftime_date (set ds)" by (rule strftime_date_inj_on)
  with dd have "distinct (map fst ledger)" unfolding ds(1) by (simp add: distinct_map)
  moreover have "strftime_date d \<in> fst ` set ledger"
    using m by (metis map_of_eq_None_iff option.distinct(1))
  ultimately have "length (filter (\<lambda>p. fst p = strftime_date d) ledger) = 1"
    by (rule distinct_key_once)
  with s(1) m show ?thesis by blast
qed

theorem repeated_date_last_wins_witness:
  "group_activities float_str (repeated_date_tree ! 1) =
     Inr [\<lparr>time = ''17:30'', start_point = ''City'', end_point = ''Home'', fare = Num (- 3)\<rparr>] \<and>
   parse_travel_data float_str repeated_date_tree =
     Inr [(''Monday 03 Jun 2024'',
            [\<lparr>time = ''17:30'', start_point = ''City'', end_point = ''Home'', fare = Num (- 3)\<rparr>])]"
  using repeated_date_last_wins [of float_str "[repeated_date_tree ! 0]" "repeated_date_tree ! 1" "[]"
      "[(''Monday 03 Jun 2024'',
            [\<lparr>time = ''17:30'', start_point = ''City'', end_point = ''Home'', fare = Num (- 3)\<rparr>])]"
      "(2024, 6, 3, 0, 0, 0, 0)"]
    repeated_date_parse
  by (simp add: repeated_date_tree_def group_date_def group_activities_def extract_activity_def
        first_text_or_def Let_def list_sort_def example_evaluations)

text \<open>
  C10: for an activity node whose stripped origin text is exactly \<open>"Top Up"\<close>, the text
  does not contain \<open>"Top up"\<close>, the extracted activity keeps that origin and the
  destination as extracted, and yet both aggregations treat it as a top-up: in the loop of
  \<open>calculate_totals\<close> and in the loop of \<open>get_daily_totals\<close> its fare is added to the
  top-up accumulator, the other accumulator being left as it is.
\<close>

theorem exact_top_up_counted:
  assumes "first_text_or (from_texts n) ''Unknown'' = ''Top Up''"
    and "extract_activity py_float n = Inr a"
  shows "\<not> sublist ''Top up'' (first_text_or (from_texts n) ''Unknown'') \<and>
     start_point a = ''Top Up'' \<and> end_point a = first_text_or (to_texts n) ''Unknown'' \<and>
     totals_activities (t, c) (a # rest) = totals_activities (t + fare a, c) rest \<and>
     daily_activities (t, c) (a # rest) = daily_activities (t + fare a, c) rest"
proof -
  have ns: "\<not> sublist ''Top up'' (first_text_or (from_texts n) ''Unknown'')"
    unfolding assms(1) by (simp add: sublist_code)
  from extract_activity_fields(2,3) [OF assms(2)] ns assms(1)
  have "start_point a = ''Top Up''" "end_point a = first_text_or (to_texts n) ''Unknown''"
    by simp_all
  with ns show ?thesis by simp
qed

theorem exact_top_up_counted_witness:
  "first_text_or (from_texts exact_top_up_node) ''Unknown'' = ''Top Up'' \<and>
   extract_activity float_str exact_top_up_node =
     Inr \<lparr>time = ''09:00'', start_point = ''Top Up'', end_point = ''Central'', fare = Num 10\<rparr> \<and>
   calculate_totals
     [(''Monday 03 Jun 2024'',
       [\<lparr>time = ''09:00'', start_point = ''Top Up'', end_point = ''Central'', fare = Num 10\<rparr>])]
     (2024, 6, 3, 0, 0, 0, 0) = Inr (Num 10, Num 0) \<and>
   get_daily_totals
     [(''Monday 03 Jun 2024'',
       [\<lparr>time = ''09:00'', start_point = ''Top Up'', end_point = ''Central'', fare = Num 10\<rparr>])]
     (2024, 6, 3, 0, 0, 0, 0) = Inr [(''Monday'', (Num 10, Num 0))]"
  using exact_top_up_counted [of exact_top_up_node float_str
      "\<lparr>time = ''09:00'', start_point = ''Top Up'', end_point = ''Central'', fare = Num 10\<rparr>"
      "Num 0" "Num 0" "[]"]
    exact_top_up_extract
  by (simp add: exact_top_up_node_def first_text_or_def calculate_totals_def get_daily_totals_def
        Let_def example_evaluations zero_pyfloat_def plus_pyfloat_def fl_def overflow_bound_def)

end
